theory Spec2Isabelle
  imports Main
begin

section \<open>Data model of the ledger pool service\<close>

text \<open>
  The embedding follows \<^verbatim>\<open>packages/indy-sdk/src/ledger/IndySdkPoolService.ts\<close>.
  Objects of the class \<^verbatim>\<open>IndySdkPool\<close> are mutable and shared by reference (the service
  memoizes the author agreement on them), so pools live in a store and are named by
  their address. Everything the service asks of its collaborators (the ledger client,
  the wallet, the pool object's network methods, the clock) is a field of the record
  \<open>env\<close>; the network methods see the trace of all earlier effects, so that a reply may
  depend on what happened before. Logging is not modelled.
\<close>

subsection \<open>Configuration and agreement records\<close>

text \<open>
  Modelled from the spec: the declarations of \<^verbatim>\<open>./IndySdkPool\<close> (the pool configuration,
  the author agreement and the acceptance mechanisms) are not among the sources. The fields
  are the ones the service reads; the routing namespace is optional, as the data model
  of the spec has it. The object \<^verbatim>\<open>aml\<close> is kept as its own properties in the order of
  \<^verbatim>\<open>Object.keys\<close>.
\<close>

record TransactionAuthorAgreement =
  version :: string
  acceptanceMechanism :: string

record AcceptanceMechanisms =
  aml :: "(string \<times> string) list"

record AgreementData =
  digest :: string
  agreement_version :: string
  agreement_text :: string

record AuthorAgreement = AgreementData +
  acceptanceMechanisms :: "AcceptanceMechanisms option"

record IndySdkPoolConfig =
  config_id :: string
  isProduction :: bool
  indyNamespace :: "string option"
  transactionAuthorAgreement :: "TransactionAuthorAgreement option"

text \<open>
  The field \<open>authorAgreement\<close> has three states: \<open>None\<close> is \<^verbatim>\<open>undefined\<close> (not yet
  fetched), \<open>Some None\<close> is \<^verbatim>\<open>null\<close> (fetched, the ledger has no agreement) and
  \<open>Some (Some a)\<close> is a fetched agreement.
\<close>

record IndySdkPool =
  config :: IndySdkPoolConfig
  authorAgreement :: "AuthorAgreement option option"

definition pool_id :: "IndySdkPool \<Rightarrow> string" where
  "pool_id p = config_id (config p)"

definition didIndyNamespace :: "IndySdkPool \<Rightarrow> string option" where
  "didIndyNamespace p = indyNamespace (config p)"

subsection \<open>Requests, replies and resolved records\<close>

datatype LedgerRequest = LedgerRequest string

datatype LedgerWriteReplyResponse = LedgerWriteReplyResponse string

text \<open>
  A read reply is opaque to the service (\<open>raw\<close>) but for its payload \<^verbatim>\<open>result.data\<close>.
  The payload is untyped in the source and read through two casts; the two selectors are
  the payload under each cast. \<open>None\<close> is \<^verbatim>\<open>null\<close>.
\<close>

datatype reply_data =
  ReplyData (asAuthorAgreement: AgreementData) (asAcceptanceMechanisms: AcceptanceMechanisms)

record LedgerReadReplyResponse =
  raw :: string
  data :: "reply_data option"

record GetNymResponse =
  nym_did :: string
  verkey :: string
  role :: string

record CachedDidResponse =
  nymResponse :: GetNymResponse
  poolId :: string

record PoolForDid =
  pool :: nat
  did :: GetNymResponse

record PublicDidRequest = PoolForDid +
  response :: LedgerReadReplyResponse

datatype AgentContext = AgentContext string

subsection \<open>Errors\<close>

text \<open>
  An error message is kept as the name of its template with the interpolated values, in
  the order in which the template interpolates them.
\<close>

datatype message =
    NoIndyLedgersConfigured
  | DidNotFoundOnLedger string string
  | DidNotFoundOnAnyLedger string nat
  | UnknownErrorRetrievingDid string nat nat
  | NoLedgersFoundForNamespace string
  | SpecifyTransactionAuthorAgreement AuthorAgreement
  | UnableToSatisfyTaa string string "string list" string

datatype error =
    IndyError string
  | IndySdkError error
  | IndySdkPoolError message "error option"
  | IndySdkPoolNotFoundError message
  | IndySdkPoolNotConfiguredError message
  | TypeError string
  | OtherError string

text \<open>
  Modelled from the spec: \<^verbatim>\<open>isIndyError\<close> of \<^verbatim>\<open>../error\<close> is not among the sources. It
  recognises the failure signal of the external ledger client, optionally with a given
  name.
\<close>

definition isIndyError :: "error \<Rightarrow> string option \<Rightarrow> bool" where
  "isIndyError e errorName =
     (case e of
        IndyError n \<Rightarrow> (case errorName of None \<Rightarrow> True | Some m \<Rightarrow> n = m)
      | _ \<Rightarrow> False)"

text \<open>The body of every catch block of the service:
  \<^verbatim>\<open>throw isIndyError(error) ? new IndySdkError(error) : error\<close>.\<close>

definition rethrow :: "error \<Rightarrow> error" where
  "rethrow e = (if isIndyError e None then IndySdkError e else e)"

text \<open>\<^verbatim>\<open>e.reason instanceof IndySdkPoolNotFoundError\<close>.\<close>

definition isNotFound :: "error \<Rightarrow> bool" where
  "isNotFound e = (case e of IndySdkPoolNotFoundError _ \<Rightarrow> True | _ \<Rightarrow> False)"

subsection \<open>Effects, collaborators and the state\<close>

datatype event =
    Connect nat
  | ReadRequest nat LedgerRequest
  | WriteRequest nat LedgerRequest
  | SignRequest string LedgerRequest
  | CacheSet string CachedDidResponse

record env =
  isSelfCertifiedDid :: "string \<Rightarrow> string \<Rightarrow> bool"
  assertIndySdkWallet :: "AgentContext \<Rightarrow> error + nat"
  indySdk_buildGetNymRequest :: "string \<Rightarrow> error + LedgerRequest"
  indySdk_buildGetTxnAuthorAgreementRequest :: "error + LedgerRequest"
  indySdk_buildGetAcceptanceMechanismsRequest :: "error + LedgerRequest"
  indySdk_parseGetNymResponse :: "LedgerReadReplyResponse \<Rightarrow> error + GetNymResponse"
  indySdk_appendTxnAuthorAgreementAcceptanceToRequest ::
    "LedgerRequest \<Rightarrow> string \<Rightarrow> string \<Rightarrow> string \<Rightarrow> string \<Rightarrow> nat \<Rightarrow> error + LedgerRequest"
  indySdk_signRequest :: "event list \<Rightarrow> nat \<Rightarrow> string \<Rightarrow> LedgerRequest \<Rightarrow> error + LedgerRequest"
  pool_connect :: "event list \<Rightarrow> nat \<Rightarrow> error + nat"
  pool_submitReadRequest :: "event list \<Rightarrow> nat \<Rightarrow> LedgerRequest \<Rightarrow> error + LedgerReadReplyResponse"
  pool_submitWriteRequest :: "event list \<Rightarrow> nat \<Rightarrow> LedgerRequest \<Rightarrow> error + LedgerWriteReplyResponse"
  getTime :: "event list \<Rightarrow> nat"

text \<open>
  The state: the service's list \<^verbatim>\<open>this.pools\<close> (addresses, in configured order), the
  store of pool objects, the external cache and the trace of effects so far.
\<close>

record world =
  pools :: "nat list"
  heap :: "nat \<Rightarrow> IndySdkPool"
  cache :: "string \<rightharpoonup> CachedDidResponse"
  trace :: "event list"

definition emit :: "event \<Rightarrow> world \<Rightarrow> world" where
  "emit ev w = w\<lparr>trace := trace w @ [ev]\<rparr>"

section \<open>Pool registry\<close>

text \<open>
  \<^verbatim>\<open>connectToPools\<close>: the \<^verbatim>\<open>for\<close> loop awaits \<^verbatim>\<open>pool.connect()\<close> for each pool in turn and
  pushes the handle. There is no \<^verbatim>\<open>try\<close> around the \<^verbatim>\<open>await\<close>: a rejected connect leaves
  the loop and rejects the whole call.
\<close>

fun connectLoop :: "env \<Rightarrow> nat list \<Rightarrow> nat list \<Rightarrow> world \<Rightarrow> (error + nat list) \<times> world" where
  "connectLoop env [] handleArray w = (Inr handleArray, w)"
| "connectLoop env (p # ps) handleArray w =
     (case pool_connect env (trace w) p of
        Inl e \<Rightarrow> (Inl e, emit (Connect p) w)
      | Inr poolHandle \<Rightarrow> connectLoop env ps (handleArray @ [poolHandle]) (emit (Connect p) w))"

definition connectToPools :: "env \<Rightarrow> world \<Rightarrow> (error + nat list) \<times> world" where
  "connectToPools env w = connectLoop env (pools w) [] w"

text \<open>
  \<^verbatim>\<open>getPoolForNamespace\<close>: the guard \<^verbatim>\<open>!indyNamespace\<close> holds for \<^verbatim>\<open>undefined\<close> and for the
  empty string. \<^verbatim>\<open>this.pools[0]\<close> is read only when the list is not empty.
\<close>

definition getPoolForNamespace :: "string option \<Rightarrow> world \<Rightarrow> error + nat" where
  "getPoolForNamespace namespace w =
     (case pools w of
        [] \<Rightarrow> Inl (IndySdkPoolNotConfiguredError NoIndyLedgersConfigured)
      | p0 # _ \<Rightarrow>
          (case namespace of
             None \<Rightarrow> Inr p0
           | Some ns \<Rightarrow>
               if ns = [] then Inr p0
               else (case find (\<lambda>p. didIndyNamespace (heap w p) = Some ns) (pools w) of
                       None \<Rightarrow> Inl (IndySdkPoolNotFoundError (NoLedgersFoundForNamespace ns))
                     | Some p \<Rightarrow> Inr p)))"

section \<open>Resolution engine\<close>

text \<open>
  \<^verbatim>\<open>getDidFromPool\<close>: build the request, submit it to the pool, parse the reply; any failure
  lands in the catch block, which turns the client's \<^verbatim>\<open>LedgerNotFound\<close> into
  \<^verbatim>\<open>IndySdkPoolNotFoundError\<close> and rethrows the rest.
\<close>

definition getDidFromPool_catch :: "world \<Rightarrow> string \<Rightarrow> nat \<Rightarrow> error \<Rightarrow> error" where
  "getDidFromPool_catch w d p e =
     (if isIndyError e (Some ''LedgerNotFound'')
      then IndySdkPoolNotFoundError (DidNotFoundOnLedger d (pool_id (heap w p)))
      else rethrow e)"

definition getDidFromPool :: "env \<Rightarrow> string \<Rightarrow> nat \<Rightarrow> world \<Rightarrow> (error + PublicDidRequest) \<times> world" where
  "getDidFromPool env d p w =
     (case indySdk_buildGetNymRequest env d of
        Inl e \<Rightarrow> (Inl (getDidFromPool_catch w d p e), w)
      | Inr request \<Rightarrow>
          (let w1 = emit (ReadRequest p request) w in
           case pool_submitReadRequest env (trace w) p request of
             Inl e \<Rightarrow> (Inl (getDidFromPool_catch w d p e), w1)
           | Inr resp \<Rightarrow>
               (case indySdk_parseGetNymResponse env resp of
                  Inl e \<Rightarrow> (Inl (getDidFromPool_catch w d p e), w1)
                | Inr result \<Rightarrow> (Inr \<lparr>pool = p, did = result, response = resp\<rparr>, w1))))"

text \<open>
  Modelled from the spec: \<^verbatim>\<open>allSettled\<close>, \<^verbatim>\<open>onlyFulfilled\<close> and \<^verbatim>\<open>onlyRejected\<close> of
  \<^verbatim>\<open>../utils/promises\<close> are not among the sources. All queries are awaited, none
  short-circuits, and the outcomes keep the order of the pools; the outcomes are then
  partitioned into the successful values and the reasons of the failed ones. A pending
  query is a computation on the state; the queries take effect in the order of the list.
\<close>

datatype 'a settled = Fulfilled 'a | Rejected error

fun allSettled :: "(world \<Rightarrow> (error + 'a) \<times> world) list \<Rightarrow> world \<Rightarrow> 'a settled list \<times> world" where
  "allSettled [] w = ([], w)"
| "allSettled (f # fs) w =
     (case f w of
        (r, w1) \<Rightarrow>
          (case allSettled fs w1 of
             (rs, w2) \<Rightarrow> ((case r of Inl e \<Rightarrow> Rejected e | Inr v \<Rightarrow> Fulfilled v) # rs, w2)))"

fun onlyFulfilled :: "'a settled list \<Rightarrow> 'a list" where
  "onlyFulfilled [] = []"
| "onlyFulfilled (Fulfilled v # xs) = v # onlyFulfilled xs"
| "onlyFulfilled (Rejected e # xs) = onlyFulfilled xs"

fun onlyRejected :: "'a settled list \<Rightarrow> error list" where
  "onlyRejected [] = []"
| "onlyRejected (Fulfilled v # xs) = onlyRejected xs"
| "onlyRejected (Rejected e # xs) = e # onlyRejected xs"

definition didResponses :: "env \<Rightarrow> string \<Rightarrow> nat list \<Rightarrow> world \<Rightarrow> PublicDidRequest settled list \<times> world" where
  "didResponses env d ps w = allSettled (map (getDidFromPool env d) ps) w"

definition getSettledDidResponsesFromPools ::
    "env \<Rightarrow> string \<Rightarrow> nat list \<Rightarrow> world \<Rightarrow> (PublicDidRequest list \<times> error list) \<times> world" where
  "getSettledDidResponsesFromPools env d ps w =
     (case didResponses env d ps w of
        (rs, w1) \<Rightarrow> ((onlyFulfilled rs, onlyRejected rs), w1))"

definition cacheKey :: "string \<Rightarrow> string" where
  "cacheKey d = ''IndySdkPoolService:'' @ d"

text \<open>The pool of the cache entry: \<^verbatim>\<open>this.pools.find((pool) => pool.id === cachedNymResponse?.poolId)\<close>.\<close>

definition cachedPool :: "world \<Rightarrow> CachedDidResponse option \<Rightarrow> nat option" where
  "cachedPool w cachedNymResponse =
     find (\<lambda>p. Some (pool_id (heap w p)) = map_option poolId cachedNymResponse) (pools w)"

text \<open>
  \<^verbatim>\<open>getPoolForDid\<close>, in two parts. \<open>getPoolForDid_fromPools\<close> is the body after the cache
  lookup: the queries to all pools, the error when none succeeded, the choice among the
  successful responses and the write to the cache. Reading index 0 of an empty array
  gives \<^verbatim>\<open>undefined\<close> in the source and the property access on it throws a
  \<^verbatim>\<open>TypeError\<close>; both places are branches here.
\<close>

definition getPoolForDid_fromPools :: "env \<Rightarrow> string \<Rightarrow> world \<Rightarrow> (error + PoolForDid) \<times> world" where
  "getPoolForDid_fromPools env d w =
     (case getSettledDidResponsesFromPools env d (pools w) w of
        ((successful, rejected), w1) \<Rightarrow>
          if successful = [] then
            (let allNotFound = list_all isNotFound rejected;
                 rejectedOtherThanNotFound = filter (\<lambda>e. \<not> isNotFound e) rejected
             in if allNotFound
                then (Inl (IndySdkPoolNotFoundError
                             (DidNotFoundOnAnyLedger d (length (pools w)))), w1)
                else (case rejectedOtherThanNotFound of
                        [] \<Rightarrow> (Inl (TypeError ''rejectedOtherThanNotFound[0]''), w1)
                      | e # _ \<Rightarrow>
                          (Inl (IndySdkPoolError
                                  (UnknownErrorRetrievingDid d
                                     (length rejectedOtherThanNotFound) (length (pools w)))
                                  (Some e)), w1)))
          else
            (let value =
                   (case find (\<lambda>r. isSelfCertifiedDid env (nym_did (did r)) (verkey (did r)))
                           successful of
                      Some v \<Rightarrow> Some v
                    | None \<Rightarrow>
                        (let production =
                               filter (\<lambda>s. isProduction (config (heap w1 (pool s)))) successful;
                             nonProduction =
                               filter (\<lambda>s. \<not> isProduction (config (heap w1 (pool s)))) successful;
                             productionOrNonProduction =
                               (if length production \<ge> 1 then production else nonProduction)
                         in case productionOrNonProduction of
                              [] \<Rightarrow> None
                            | v # _ \<Rightarrow> Some v))
             in case value of
                  None \<Rightarrow> (Inl (TypeError ''productionOrNonProduction[0]''), w1)
                | Some v \<Rightarrow>
                    (let entry = \<lparr>nymResponse = did v, poolId = pool_id (heap w1 (pool v))\<rparr>
                     in (Inr \<lparr>pool = pool v, did = did v\<rparr>,
                         emit (CacheSet (cacheKey d) entry)
                           (w1\<lparr>cache := (cache w1)(cacheKey d \<mapsto> entry)\<rparr>)))))"

definition getPoolForDid :: "env \<Rightarrow> string \<Rightarrow> world \<Rightarrow> (error + PoolForDid) \<times> world" where
  "getPoolForDid env d w =
     (if pools w = [] then (Inl (IndySdkPoolNotConfiguredError NoIndyLedgersConfigured), w)
      else
        let cachedNymResponse = cache w (cacheKey d);
            cachedPoolRef = cachedPool w cachedNymResponse
        in if cachedNymResponse \<noteq> None \<and> cachedPoolRef \<noteq> None
           then (Inr \<lparr>pool = the cachedPoolRef, did = nymResponse (the cachedNymResponse)\<rparr>, w)
           else getPoolForDid_fromPools env d w)"

section \<open>Write coordinator\<close>

definition submitReadRequest ::
    "env \<Rightarrow> nat \<Rightarrow> LedgerRequest \<Rightarrow> world \<Rightarrow> (error + LedgerReadReplyResponse) \<times> world" where
  "submitReadRequest env p request w =
     (case pool_submitReadRequest env (trace w) p request of
        Inl e \<Rightarrow> (Inl (rethrow e), emit (ReadRequest p request) w)
      | Inr resp \<Rightarrow> (Inr resp, emit (ReadRequest p request) w))"

definition setAuthorAgreement :: "nat \<Rightarrow> AuthorAgreement option \<Rightarrow> world \<Rightarrow> world" where
  "setAuthorAgreement p a w = w\<lparr>heap := (heap w)(p := (heap w p)\<lparr>authorAgreement := Some a\<rparr>)\<rparr>"

text \<open>
  \<^verbatim>\<open>getTransactionAuthorAgreement\<close>: the memoized field is returned when it is not
  \<^verbatim>\<open>undefined\<close>; otherwise both read requests are sent before the agreement payload is
  looked at, and the field is set only when both have succeeded.
\<close>

definition getTransactionAuthorAgreement ::
    "env \<Rightarrow> nat \<Rightarrow> world \<Rightarrow> (error + AuthorAgreement option) \<times> world" where
  "getTransactionAuthorAgreement env p w =
     (case authorAgreement (heap w p) of
        Some a \<Rightarrow> (Inr a, w)
      | None \<Rightarrow>
          (case indySdk_buildGetTxnAuthorAgreementRequest env of
             Inl e \<Rightarrow> (Inl (rethrow e), w)
           | Inr taaRequest \<Rightarrow>
               (case submitReadRequest env p taaRequest w of
                  (Inl e, w1) \<Rightarrow> (Inl (rethrow e), w1)
                | (Inr taaResponse, w1) \<Rightarrow>
                    (case indySdk_buildGetAcceptanceMechanismsRequest env of
                       Inl e \<Rightarrow> (Inl (rethrow e), w1)
                     | Inr acceptanceMechanismRequest \<Rightarrow>
                         (case submitReadRequest env p acceptanceMechanismRequest w1 of
                            (Inl e, w2) \<Rightarrow> (Inl (rethrow e), w2)
                          | (Inr acceptanceMechanismResponse, w2) \<Rightarrow>
                              (case data taaResponse of
                                 None \<Rightarrow> (Inr None, setAuthorAgreement p None w2)
                               | Some taaData \<Rightarrow>
                                   (let a = \<lparr>digest = digest (asAuthorAgreement taaData),
                                             agreement_version = agreement_version (asAuthorAgreement taaData),
                                             agreement_text = agreement_text (asAuthorAgreement taaData),
                                             acceptanceMechanisms =
                                               map_option asAcceptanceMechanisms
                                                 (data acceptanceMechanismResponse)\<rparr>
                                    in (Inr (Some a), setAuthorAgreement p (Some a) w2))))))))"

text \<open>
  The operator \<^verbatim>\<open>in\<close> of the source looks a name up on the object and on its prototype
  chain. \<^verbatim>\<open>aml\<close> is a plain object of a parsed reply, whose prototype is
  \<^verbatim>\<open>Object.prototype\<close>, so the names below are found in every such object.
\<close>

definition objectPrototypeProperties :: "string list" where
  "objectPrototypeProperties =
     [''constructor'', ''__defineGetter__'', ''__defineSetter__'', ''hasOwnProperty'',
      ''__lookupGetter__'', ''__lookupSetter__'', ''isPrototypeOf'', ''propertyIsEnumerable'',
      ''toString'', ''valueOf'', ''__proto__'', ''toLocaleString'']"

definition js_in :: "string \<Rightarrow> (string \<times> string) list \<Rightarrow> bool" where
  "js_in k obj = (List.member (map fst obj) k \<or> List.member objectPrototypeProperties k)"

text \<open>
  \<^verbatim>\<open>appendTaa\<close>. Both the test of the mechanism and the error message read
  \<^verbatim>\<open>authorAgreement.acceptanceMechanisms.aml\<close>; when the mechanisms are \<^verbatim>\<open>null\<close> that read
  throws a \<^verbatim>\<open>TypeError\<close> on either path, which is the first branch below.
\<close>

definition appendTaa :: "env \<Rightarrow> nat \<Rightarrow> LedgerRequest \<Rightarrow> world \<Rightarrow> (error + LedgerRequest) \<times> world" where
  "appendTaa env p request w =
     (case getTransactionAuthorAgreement env p w of
        (Inl e, w1) \<Rightarrow> (Inl (rethrow e), w1)
      | (Inr agreement, w1) \<Rightarrow>
          (let taa = transactionAuthorAgreement (config (heap w1 p)) in
           case agreement of
             None \<Rightarrow> (Inr request, w1)
           | Some a \<Rightarrow>
               (case taa of
                  None \<Rightarrow> (Inl (rethrow (IndySdkPoolError (SpecifyTransactionAuthorAgreement a) None)), w1)
                | Some t \<Rightarrow>
                    (case acceptanceMechanisms a of
                       None \<Rightarrow> (Inl (rethrow (TypeError ''authorAgreement.acceptanceMechanisms.aml'')), w1)
                     | Some am \<Rightarrow>
                         if agreement_version a \<noteq> version t \<or> \<not> js_in (acceptanceMechanism t) (aml am)
                         then (Inl (rethrow (IndySdkPoolError
                                      (UnableToSatisfyTaa (acceptanceMechanism t) (version t)
                                         (map fst (aml am)) (agreement_version a)) None)), w1)
                         else
                           (case indySdk_appendTxnAuthorAgreementAcceptanceToRequest env request
                                   (agreement_text a) (version t) (digest a) (acceptanceMechanism t)
                                   (getTime env (trace w1) div 1000) of
                              Inl e \<Rightarrow> (Inl (rethrow e), w1)
                            | Inr requestWithTaa \<Rightarrow> (Inr requestWithTaa, w1))))))"

text \<open>
  \<^verbatim>\<open>signRequest\<close>: the wallet assertion stands outside the \<^verbatim>\<open>try\<close>; the promise of the
  client is returned without \<^verbatim>\<open>await\<close>, so its rejection passes the catch block unchanged.
\<close>

definition signRequest ::
    "env \<Rightarrow> AgentContext \<Rightarrow> string \<Rightarrow> LedgerRequest \<Rightarrow> world \<Rightarrow> (error + LedgerRequest) \<times> world" where
  "signRequest env agentContext signDid request w =
     (case assertIndySdkWallet env agentContext of
        Inl e \<Rightarrow> (Inl e, w)
      | Inr walletHandle \<Rightarrow>
          (indySdk_signRequest env (trace w) walletHandle signDid request,
           emit (SignRequest signDid request) w))"

definition submitWriteRequest ::
    "env \<Rightarrow> AgentContext \<Rightarrow> nat \<Rightarrow> LedgerRequest \<Rightarrow> string \<Rightarrow> world
       \<Rightarrow> (error + LedgerWriteReplyResponse) \<times> world" where
  "submitWriteRequest env agentContext p request signDid w =
     (case appendTaa env p request w of
        (Inl e, w1) \<Rightarrow> (Inl (rethrow e), w1)
      | (Inr requestWithTaa, w1) \<Rightarrow>
          (case signRequest env agentContext signDid requestWithTaa w1 of
             (Inl e, w2) \<Rightarrow> (Inl (rethrow e), w2)
           | (Inr signedRequestWithTaa, w2) \<Rightarrow>
               (case pool_submitWriteRequest env (trace w2) p signedRequestWithTaa of
                  Inl e \<Rightarrow> (Inl (rethrow e), emit (WriteRequest p signedRequestWithTaa) w2)
                | Inr resp \<Rightarrow> (Inr resp, emit (WriteRequest p signedRequestWithTaa) w2))))"

section \<open>A write, from one \<^verbatim>\<open>await\<close> to the next\<close>

text \<open>
  \<^verbatim>\<open>submitWriteRequest\<close> is asynchronous: between two \<^verbatim>\<open>await\<close>s it runs without
  interruption, and at an \<^verbatim>\<open>await\<close> other pending calls may run. \<open>pc\<close> names the places
  where a pending call can wait: before the test of the memoized field (l.263), after each
  of the four \<^verbatim>\<open>await\<close>s of \<^verbatim>\<open>getTransactionAuthorAgreement\<close> (l.267--270), with the fetched
  agreement, with the result of \<^verbatim>\<open>appendTaa\<close>, with the result of \<^verbatim>\<open>signRequest\<close>, and settled.
  \<open>resume\<close> runs one stretch of code: it sends at most one request, whose reply is the one
  the collaborator gives for the trace at that moment. The memoized field is tested in the
  first stretch and assigned in the fifth (l.274, l.281), four \<^verbatim>\<open>await\<close>s later.
  \<open>appendTaa_resumed\<close> is the part of \<^verbatim>\<open>appendTaa\<close> after its \<^verbatim>\<open>await\<close> of the agreement.
\<close>

datatype pc =
    Check
  | BuiltTaaRequest LedgerRequest
  | GotTaaResponse LedgerReadReplyResponse
  | BuiltAmlRequest LedgerReadReplyResponse LedgerRequest
  | GotAmlResponse LedgerReadReplyResponse LedgerReadReplyResponse
  | Fetched "error + AuthorAgreement option"
  | Appended "error + LedgerRequest"
  | Signed "error + LedgerRequest"
  | Settled "error + LedgerWriteReplyResponse"

record pending =
  call_agentContext :: AgentContext
  call_pool :: nat
  call_request :: LedgerRequest
  call_signDid :: string
  at :: pc

definition appendTaa_resumed ::
    "env \<Rightarrow> nat \<Rightarrow> LedgerRequest \<Rightarrow> error + AuthorAgreement option \<Rightarrow> world \<Rightarrow> error + LedgerRequest" where
  "appendTaa_resumed env p request fetched w =
     (case fetched of
        Inl e \<Rightarrow> Inl (rethrow e)
      | Inr agreement \<Rightarrow>
          (let taa = transactionAuthorAgreement (config (heap w p)) in
           case agreement of
             None \<Rightarrow> Inr request
           | Some a \<Rightarrow>
               (case taa of
                  None \<Rightarrow> Inl (rethrow (IndySdkPoolError (SpecifyTransactionAuthorAgreement a) None))
                | Some t \<Rightarrow>
                    (case acceptanceMechanisms a of
                       None \<Rightarrow> Inl (rethrow (TypeError ''authorAgreement.acceptanceMechanisms.aml''))
                     | Some am \<Rightarrow>
                         if agreement_version a \<noteq> version t \<or> \<not> js_in (acceptanceMechanism t) (aml am)
                         then Inl (rethrow (IndySdkPoolError
                                      (UnableToSatisfyTaa (acceptanceMechanism t) (version t)
                                         (map fst (aml am)) (agreement_version a)) None))
                         else
                           (case indySdk_appendTxnAuthorAgreementAcceptanceToRequest env request
                                   (agreement_text a) (version t) (digest a) (acceptanceMechanism t)
                                   (getTime env (trace w) div 1000) of
                              Inl e \<Rightarrow> Inl (rethrow e)
                            | Inr requestWithTaa \<Rightarrow> Inr requestWithTaa)))))"

fun resume :: "env \<Rightarrow> AgentContext \<Rightarrow> nat \<Rightarrow> LedgerRequest \<Rightarrow> string \<Rightarrow> pc \<Rightarrow> world \<Rightarrow> pc \<times> world" where
  "resume env agentContext p request signDid Check w =
     (case authorAgreement (heap w p) of
        Some a \<Rightarrow> (Fetched (Inr a), w)
      | None \<Rightarrow>
          (case indySdk_buildGetTxnAuthorAgreementRequest env of
             Inl e \<Rightarrow> (Fetched (Inl (rethrow e)), w)
           | Inr taaRequest \<Rightarrow> (BuiltTaaRequest taaRequest, w)))"
| "resume env agentContext p request signDid (BuiltTaaRequest taaRequest) w =
     (case submitReadRequest env p taaRequest w of
        (Inl e, w1) \<Rightarrow> (Fetched (Inl (rethrow e)), w1)
      | (Inr taaResponse, w1) \<Rightarrow> (GotTaaResponse taaResponse, w1))"
| "resume env agentContext p request signDid (GotTaaResponse taaResponse) w =
     (case indySdk_buildGetAcceptanceMechanismsRequest env of
        Inl e \<Rightarrow> (Fetched (Inl (rethrow e)), w)
      | Inr acceptanceMechanismRequest \<Rightarrow> (BuiltAmlRequest taaResponse acceptanceMechanismRequest, w))"
| "resume env agentContext p request signDid (BuiltAmlRequest taaResponse acceptanceMechanismRequest) w =
     (case submitReadRequest env p acceptanceMechanismRequest w of
        (Inl e, w2) \<Rightarrow> (Fetched (Inl (rethrow e)), w2)
      | (Inr acceptanceMechanismResponse, w2) \<Rightarrow> (GotAmlResponse taaResponse acceptanceMechanismResponse, w2))"
| "resume env agentContext p request signDid (GotAmlResponse taaResponse acceptanceMechanismResponse) w =
     (case data taaResponse of
        None \<Rightarrow> (Fetched (Inr None), setAuthorAgreement p None w)
      | Some taaData \<Rightarrow>
          (let a = \<lparr>digest = digest (asAuthorAgreement taaData),
                    agreement_version = agreement_version (asAuthorAgreement taaData),
                    agreement_text = agreement_text (asAuthorAgreement taaData),
                    acceptanceMechanisms =
                      map_option asAcceptanceMechanisms (data acceptanceMechanismResponse)\<rparr>
           in (Fetched (Inr (Some a)), setAuthorAgreement p (Some a) w)))"
| "resume env agentContext p request signDid (Fetched fetched) w =
     (Appended (appendTaa_resumed env p request fetched w), w)"
| "resume env agentContext p request signDid (Appended (Inl e)) w = (Settled (Inl (rethrow e)), w)"
| "resume env agentContext p request signDid (Appended (Inr requestWithTaa)) w =
     (case signRequest env agentContext signDid requestWithTaa w of
        (signed, w2) \<Rightarrow> (Signed signed, w2))"
| "resume env agentContext p request signDid (Signed (Inl e)) w = (Settled (Inl (rethrow e)), w)"
| "resume env agentContext p request signDid (Signed (Inr signedRequestWithTaa)) w =
     (case pool_submitWriteRequest env (trace w) p signedRequestWithTaa of
        Inl e \<Rightarrow> (Settled (Inl (rethrow e)), emit (WriteRequest p signedRequestWithTaa) w)
      | Inr resp \<Rightarrow> (Settled (Inr resp), emit (WriteRequest p signedRequestWithTaa) w))"
| "resume env agentContext p request signDid (Settled r) w = (Settled r, w)"

definition resumeCall :: "env \<Rightarrow> pending \<Rightarrow> world \<Rightarrow> pending \<times> world" where
  "resumeCall env c w =
     (case resume env (call_agentContext c) (call_pool c) (call_request c) (call_signDid c) (at c) w of
        (next_pc, w1) \<Rightarrow> (c\<lparr>at := next_pc\<rparr>, w1))"

text \<open>
  \<open>runAlone\<close> resumes one call a number of times with no other call in between;
  \<open>interleave\<close> resumes the pending calls in the order of a schedule, which names the call
  to resume next by its position. A call is \<open>fetching\<close> between its test of the memoized
  field and its assignment to it.
\<close>

fun runAlone :: "env \<Rightarrow> nat \<Rightarrow> pending \<Rightarrow> world \<Rightarrow> pending \<times> world" where
  "runAlone env 0 c w = (c, w)"
| "runAlone env (Suc n) c w = (case resumeCall env c w of (c1, w1) \<Rightarrow> runAlone env n c1 w1)"



definition newCall :: "AgentContext \<Rightarrow> nat \<Rightarrow> LedgerRequest \<Rightarrow> string \<Rightarrow> pending" where
  "newCall agentContext p request signDid =
     \<lparr>call_agentContext = agentContext, call_pool = p, call_request = request,
      call_signDid = signDid, at = Check\<rparr>"

section \<open>Observing runs\<close>

text \<open>
  The effects of a call are the events it appends to the trace. \<open>cached\<close> is the state
  after \<^verbatim>\<open>cache.set\<close> has stored the chosen response. A run of the service is a list of
  calls of its public methods.
\<close>

definition newEvents :: "world \<Rightarrow> world \<Rightarrow> event list" where
  "newEvents w w' = drop (length (trace w)) (trace w')"

fun isReadRequest :: "event \<Rightarrow> bool" where
  "isReadRequest (ReadRequest p r) = True"
| "isReadRequest ev = False"

fun isCacheSet :: "event \<Rightarrow> bool" where
  "isCacheSet (CacheSet k v) = True"
| "isCacheSet ev = False"

definition cached :: "world \<Rightarrow> string \<Rightarrow> PublicDidRequest \<Rightarrow> world" where
  "cached w1 d v =
     emit (CacheSet (cacheKey d) \<lparr>nymResponse = did v, poolId = pool_id (heap w1 (pool v))\<rparr>)
       (w1\<lparr>cache := (cache w1)(cacheKey d \<mapsto> \<lparr>nymResponse = did v, poolId = pool_id (heap w1 (pool v))\<rparr>)\<rparr>)"

datatype operation =
    ConnectToPools
  | GetPoolForDid string
  | SubmitReadRequest nat LedgerRequest
  | SubmitWriteRequest AgentContext nat LedgerRequest string

fun perform :: "env \<Rightarrow> operation \<Rightarrow> world \<Rightarrow> world" where
  "perform env ConnectToPools w = snd (connectToPools env w)"
| "perform env (GetPoolForDid d) w = snd (getPoolForDid env d w)"
| "perform env (SubmitReadRequest p request) w = snd (submitReadRequest env p request w)"
| "perform env (SubmitWriteRequest agentContext p request signDid) w =
     snd (submitWriteRequest env agentContext p request signDid w)"


section \<open>Example configurations\<close>

text \<open>
  Small configurations on which the theorems below are run: a ledger client whose
  replies depend on the pool only, two or three pools, and states with and without a
  cache entry or a fetched agreement. In \<open>exampleEnv\<close> every read fails with the
  client's \<^verbatim>\<open>LedgerNotFound\<close>; a verkey is taken as self-certified when it is abbreviated.
\<close>

definition examplePool :: "string \<Rightarrow> bool \<Rightarrow> string option \<Rightarrow> IndySdkPool" where
  "examplePool name production ns =
     \<lparr>config = \<lparr>config_id = name, isProduction = production, indyNamespace = ns,
                transactionAuthorAgreement = None\<rparr>,
      authorAgreement = None\<rparr>"

definition exampleEnv :: env where
  "exampleEnv =
     \<lparr>isSelfCertifiedDid = (\<lambda>d k. take 1 k = ''~''),
      assertIndySdkWallet = (\<lambda>ctx. Inr 7),
      indySdk_buildGetNymRequest = (\<lambda>d. Inr (LedgerRequest d)),
      indySdk_buildGetTxnAuthorAgreementRequest = Inr (LedgerRequest ''taa''),
      indySdk_buildGetAcceptanceMechanismsRequest = Inr (LedgerRequest ''aml''),
      indySdk_parseGetNymResponse = (\<lambda>r. Inr \<lparr>nym_did = ''did1'', verkey = raw r, role = ''0''\<rparr>),
      indySdk_appendTxnAuthorAgreementAcceptanceToRequest =
        (\<lambda>r t v g m ts. Inr (LedgerRequest (''accepted:'' @ m))),
      indySdk_signRequest = (\<lambda>tr h s r. Inr (case r of LedgerRequest x \<Rightarrow> LedgerRequest (''signed:'' @ x))),
      pool_connect = (\<lambda>tr p. Inr p),
      pool_submitReadRequest = (\<lambda>tr p r. Inl (IndyError ''LedgerNotFound'')),
      pool_submitWriteRequest = (\<lambda>tr p r. Inr (LedgerWriteReplyResponse ''ok'')),
      getTime = (\<lambda>tr. 1700000000123)\<rparr>"

definition selfCertifiedEnv :: env where
  "selfCertifiedEnv = exampleEnv\<lparr>pool_submitReadRequest :=
     (\<lambda>tr p r. Inr \<lparr>raw = (if p = 0 then ''key0'' else if p = 1 then ''~key1'' else ''~key2''), data = None\<rparr>)\<rparr>"

definition fullKeyEnv :: env where
  "fullKeyEnv = exampleEnv\<lparr>pool_submitReadRequest := (\<lambda>tr p r. Inr \<lparr>raw = ''key'', data = None\<rparr>)\<rparr>"

definition secondOnlyEnv :: env where
  "secondOnlyEnv = exampleEnv\<lparr>pool_submitReadRequest :=
     (\<lambda>tr p r. if p = 0 then Inl (IndyError ''LedgerNotFound'') else Inr \<lparr>raw = ''key'', data = None\<rparr>)\<rparr>"

definition timeoutEnv :: env where
  "timeoutEnv = exampleEnv\<lparr>pool_submitReadRequest :=
     (\<lambda>tr p r. if p = 0 then Inl (IndyError ''LedgerNotFound'') else Inl (OtherError ''timeout''))\<rparr>"

definition refusingEnv :: env where
  "refusingEnv = exampleEnv\<lparr>pool_connect :=
     (\<lambda>tr p. if p = 0 then Inl (OtherError ''connection refused'') else Inr p)\<rparr>"

definition selfCertifiedWorld :: world where
  "selfCertifiedWorld =
     \<lparr>pools = [0, 1, 2],
      heap = (\<lambda>p. if p = 0 then examplePool ''A'' True None
                  else if p = 1 then examplePool ''B'' False None
                  else examplePool ''C'' True None),
      cache = Map.empty, trace = []\<rparr>"

definition stagingFirstWorld :: world where
  "stagingFirstWorld =
     \<lparr>pools = [0, 1],
      heap = (\<lambda>p. if p = 0 then examplePool ''A'' False None else examplePool ''B'' True None),
      cache = Map.empty, trace = []\<rparr>"

definition stagingWorld :: world where
  "stagingWorld =
     \<lparr>pools = [0, 1],
      heap = (\<lambda>p. if p = 0 then examplePool ''A'' False None else examplePool ''B'' False None),
      cache = Map.empty, trace = []\<rparr>"

definition exampleNym :: GetNymResponse where
  "exampleNym = \<lparr>nym_did = ''did1'', verkey = ''key'', role = ''0''\<rparr>"

definition cachedWorld :: world where
  "cachedWorld = stagingFirstWorld\<lparr>cache :=
     [cacheKey ''did1'' \<mapsto> \<lparr>nymResponse = exampleNym, poolId = ''B''\<rparr>]\<rparr>"

definition staleWorld :: world where
  "staleWorld = stagingFirstWorld\<lparr>cache :=
     [cacheKey ''did1'' \<mapsto> \<lparr>nymResponse = exampleNym, poolId = ''Z''\<rparr>]\<rparr>"

definition namespaceWorld :: world where
  "namespaceWorld =
     \<lparr>pools = [0, 1, 2],
      heap = (\<lambda>p. if p = 0 then examplePool ''A'' True (Some ''sovrin'')
                  else if p = 1 then examplePool ''B'' False (Some ''bcovrin'')
                  else examplePool ''C'' False (Some ''bcovrin'')),
      cache = Map.empty, trace = []\<rparr>"

definition exampleAgreement :: AuthorAgreement where
  "exampleAgreement =
     \<lparr>digest = ''digest'', agreement_version = ''1.0'', agreement_text = ''text'',
      acceptanceMechanisms = Some \<lparr>aml = [(''wallet_agreement'', ''accepted in the wallet'')]\<rparr>\<rparr>"

definition agreementWorld :: "string \<Rightarrow> string \<Rightarrow> world" where
  "agreementWorld v m =
     \<lparr>pools = [0],
      heap = (\<lambda>p. \<lparr>config = \<lparr>config_id = ''A'', isProduction = True, indyNamespace = None,
                              transactionAuthorAgreement = Some \<lparr>version = v, acceptanceMechanism = m\<rparr>\<rparr>,
                    authorAgreement = Some (Some exampleAgreement)\<rparr>),
      cache = Map.empty, trace = []\<rparr>"

definition absentWorld :: world where
  "absentWorld =
     \<lparr>pools = [0],
      heap = (\<lambda>p. (examplePool ''A'' True None)\<lparr>authorAgreement := Some None\<rparr>),
      cache = Map.empty, trace = []\<rparr>"

section \<open>Frame and trace lemmas of the resolution engine\<close>

lemma emit_simps [simp]:
  "pools (emit ev w) = pools w" "heap (emit ev w) = heap w"
  "cache (emit ev w) = cache w" "trace (emit ev w) = trace w @ [ev]"
  by (simp_all add: emit_def)

lemma newEvents_append [simp]: "trace w' = trace w @ evs \<Longrightarrow> newEvents w w' = evs"
  by (simp add: newEvents_def)

lemma newEvents_same [simp]: "newEvents w w = []"
  by (simp add: newEvents_def)

lemma getDidFromPool_frame:
  "pools (snd (getDidFromPool env d p w)) = pools w"
  "heap (snd (getDidFromPool env d p w)) = heap w"
  "cache (snd (getDidFromPool env d p w)) = cache w"
  by (simp_all add: getDidFromPool_def Let_def split: sum.splits)

lemma getDidFromPool_trace:
  "trace (snd (getDidFromPool env d p w)) =
     trace w @ (case indySdk_buildGetNymRequest env d of Inl e \<Rightarrow> [] | Inr req \<Rightarrow> [ReadRequest p req])"
  by (simp add: getDidFromPool_def Let_def split: sum.splits)

lemma getDidFromPool_pool:
  "fst (getDidFromPool env d p w) = Inr v \<Longrightarrow> pool v = p"
  by (auto simp add: getDidFromPool_def Let_def split: sum.splits)

lemma didResponses_Nil [simp]: "didResponses env d [] w = ([], w)"
  by (simp add: didResponses_def)

lemma didResponses_Cons:
  "didResponses env d (p # ps) w =
     (case getDidFromPool env d p w of
        (r, w1) \<Rightarrow>
          (case didResponses env d ps w1 of
             (rs, w2) \<Rightarrow> ((case r of Inl e \<Rightarrow> Rejected e | Inr v \<Rightarrow> Fulfilled v) # rs, w2)))"
  by (simp add: didResponses_def)

lemma didResponses_length: "length (fst (didResponses env d ps w)) = length ps"
proof (induction ps arbitrary: w)
  case Nil
  show ?case by simp
next
  case (Cons p ps)
  obtain r w1 where g: "getDidFromPool env d p w = (r, w1)" by (cases "getDidFromPool env d p w")
  obtain rs w2 where h: "didResponses env d ps w1 = (rs, w2)" by (cases "didResponses env d ps w1")
  from Cons.IH [of w1] h show ?case by (simp add: didResponses_Cons g)
qed

lemma didResponses_frame:
  "pools (snd (didResponses env d ps w)) = pools w \<and>
   heap (snd (didResponses env d ps w)) = heap w \<and>
   cache (snd (didResponses env d ps w)) = cache w"
proof (induction ps arbitrary: w)
  case Nil
  show ?case by simp
next
  case (Cons p ps)
  obtain r w1 where g: "getDidFromPool env d p w = (r, w1)" by (cases "getDidFromPool env d p w")
  obtain rs w2 where h: "didResponses env d ps w1 = (rs, w2)" by (cases "didResponses env d ps w1")
  from getDidFromPool_frame [of env d p w] g
  have "pools w1 = pools w" "heap w1 = heap w" "cache w1 = cache w" by simp_all
  with Cons.IH [of w1] h show ?case by (simp add: didResponses_Cons g)
qed

lemma didResponses_trace:
  "trace (snd (didResponses env d ps w)) =
     trace w @ (case indySdk_buildGetNymRequest env d of
                  Inl e \<Rightarrow> [] | Inr req \<Rightarrow> map (\<lambda>p. ReadRequest p req) ps)"
proof (induction ps arbitrary: w)
  case Nil
  show ?case by (simp split: sum.splits)
next
  case (Cons p ps)
  obtain r w1 where g: "getDidFromPool env d p w = (r, w1)" by (cases "getDidFromPool env d p w")
  obtain rs w2 where h: "didResponses env d ps w1 = (rs, w2)" by (cases "didResponses env d ps w1")
  from getDidFromPool_trace [of env d p w] g
  have "trace w1 = trace w @ (case indySdk_buildGetNymRequest env d of Inl e \<Rightarrow> [] | Inr req \<Rightarrow> [ReadRequest p req])"
    by simp
  with Cons.IH [of w1] h show ?case by (simp add: didResponses_Cons g split: sum.splits)
qed

lemma didResponses_events:
  assumes "didResponses env d ps w = (rs, w1)"
  shows "trace w1 = trace w @ (case indySdk_buildGetNymRequest env d of
                  Inl e \<Rightarrow> [] | Inr req \<Rightarrow> map (\<lambda>p. ReadRequest p req) ps)"
  using didResponses_trace [of env d ps w] assms by simp

lemma didResponses_pool:
  "i < length ps \<Longrightarrow> fst (didResponses env d ps w) ! i = Fulfilled v \<Longrightarrow> pool v = ps ! i"
proof (induction ps arbitrary: w i)
  case Nil
  then show ?case by simp
next
  case (Cons p ps)
  obtain r w1 where g: "getDidFromPool env d p w = (r, w1)" by (cases "getDidFromPool env d p w")
  obtain rs w2 where h: "didResponses env d ps w1 = (rs, w2)" by (cases "didResponses env d ps w1")
  show ?case
  proof (cases i)
    case 0
    with Cons.prems g h have "r = Inr v" by (auto simp: didResponses_Cons split: sum.splits)
    with getDidFromPool_pool [of env d p w v] g 0 show ?thesis by simp
  next
    case (Suc k)
    with Cons.prems g h have "k < length ps" "fst (didResponses env d ps w1) ! k = Fulfilled v"
      by (auto simp: didResponses_Cons)
    with Cons.IH [of k w1] Suc show ?thesis by simp
  qed
qed

lemma filter_map_ReadRequest [simp]:
  "filter isCacheSet (map (\<lambda>p. ReadRequest p req) ps) = []"
  "filter isReadRequest (map (\<lambda>p. ReadRequest p req) ps) = map (\<lambda>p. ReadRequest p req) ps"
  by (induction ps) simp_all

section \<open>The first element that satisfies a test\<close>

lemma find_first_index:
  "i < length xs \<Longrightarrow> P (xs ! i) \<Longrightarrow> (\<forall>j<i. \<not> P (xs ! j)) \<Longrightarrow> find P xs = Some (xs ! i)"
proof (induction xs arbitrary: i)
  case Nil
  then show ?case by simp
next
  case (Cons x xs)
  show ?case
  proof (cases i)
    case 0
    with Cons.prems show ?thesis by simp
  next
    case (Suc k)
    from Cons.prems Suc have k: "k < length xs" "P (xs ! k)" by simp_all
    from Cons.prems(3) Suc have earlier: "\<forall>j<k. \<not> P (xs ! j)"
      by (metis Suc_less_eq nth_Cons_Suc)
    from Cons.prems(3) Suc have head: "\<not> P x"
      by (metis nth_Cons_0 zero_less_Suc)
    from Cons.IH [OF k earlier] head Suc show ?thesis by simp
  qed
qed

lemma find_onlyFulfilled_first:
  "i < length rs \<Longrightarrow> rs ! i = Fulfilled v \<Longrightarrow> P v \<Longrightarrow>
   (\<forall>j<i. \<forall>u. rs ! j = Fulfilled u \<longrightarrow> \<not> P u) \<Longrightarrow>
   find P (onlyFulfilled rs) = Some v"
proof (induction rs arbitrary: i)
  case Nil
  then show ?case by simp
next
  case (Cons r rs)
  show ?case
  proof (cases i)
    case 0
    with Cons.prems show ?thesis by simp
  next
    case (Suc k)
    from Cons.prems Suc have k: "k < length rs" "rs ! k = Fulfilled v" by simp_all
    from Cons.prems(4) Suc have earlier: "\<forall>j<k. \<forall>u. rs ! j = Fulfilled u \<longrightarrow> \<not> P u"
      by (metis Suc_less_eq nth_Cons_Suc)
    from Cons.prems(4) Suc have head: "\<forall>u. r = Fulfilled u \<longrightarrow> \<not> P u"
      by (metis nth_Cons_0 zero_less_Suc)
    from Cons.IH [OF k Cons.prems(3) earlier] head show ?thesis
      by (cases r) simp_all
  qed
qed

lemma find_onlyFulfilled_none:
  "(\<forall>j<length rs. \<forall>u. rs ! j = Fulfilled u \<longrightarrow> \<not> P u) \<Longrightarrow> find P (onlyFulfilled rs) = None"
proof (induction rs)
  case Nil
  then show ?case by simp
next
  case (Cons r rs)
  from Cons.prems have tail: "\<forall>j<length rs. \<forall>u. rs ! j = Fulfilled u \<longrightarrow> \<not> P u"
    by (metis Suc_less_eq length_Cons nth_Cons_Suc)
  from Cons.prems have head: "\<forall>u. r = Fulfilled u \<longrightarrow> \<not> P u"
    by (metis length_Cons nth_Cons_0 zero_less_Suc)
  from Cons.IH [OF tail] head show ?case by (cases r) simp_all
qed

lemma find_filter_hd:
  "find P xs = Some v \<Longrightarrow> \<exists>ys. filter P xs = v # ys"
  by (induction xs) (auto split: if_splits)

lemma find_filter_nil:
  "find P xs = None \<Longrightarrow> filter P xs = []"
  by (induction xs) (auto split: if_splits)

lemma find_Some_nonempty: "find P xs = Some v \<Longrightarrow> xs \<noteq> []"
  by (cases xs) simp_all

lemma find_onlyRejected_first:
  "i < length rs \<Longrightarrow> rs ! i = Rejected e \<Longrightarrow> P e \<Longrightarrow>
   (\<forall>j<i. \<forall>x. rs ! j = Rejected x \<longrightarrow> \<not> P x) \<Longrightarrow>
   find P (onlyRejected rs) = Some e"
proof (induction rs arbitrary: i)
  case Nil
  then show ?case by simp
next
  case (Cons r rs)
  show ?case
  proof (cases i)
    case 0
    with Cons.prems show ?thesis by simp
  next
    case (Suc k)
    from Cons.prems Suc have k: "k < length rs" "rs ! k = Rejected e" by simp_all
    from Cons.prems(4) Suc have earlier: "\<forall>j<k. \<forall>x. rs ! j = Rejected x \<longrightarrow> \<not> P x"
      by (metis Suc_less_eq nth_Cons_Suc)
    from Cons.prems(4) Suc have head: "\<forall>x. r = Rejected x \<longrightarrow> \<not> P x"
      by (metis nth_Cons_0 zero_less_Suc)
    from Cons.IH [OF k Cons.prems(3) earlier] head show ?thesis
      by (cases r) simp_all
  qed
qed

lemma onlyFulfilled_nil:
  "(\<forall>i<length rs. \<exists>e. rs ! i = Rejected e) \<Longrightarrow> onlyFulfilled rs = []"
proof (induction rs)
  case Nil
  show ?case by simp
next
  case (Cons r rs)
  from Cons.prems have tail: "\<forall>i<length rs. \<exists>e. rs ! i = Rejected e"
    by (metis Suc_less_eq length_Cons nth_Cons_Suc)
  from Cons.prems obtain e where "r = Rejected e"
    by (metis length_Cons nth_Cons_0 zero_less_Suc)
  with Cons.IH [OF tail] show ?case by simp
qed

lemma onlyRejected_all:
  "(\<forall>i<length rs. \<forall>e. rs ! i = Rejected e \<longrightarrow> P e) \<Longrightarrow> list_all P (onlyRejected rs)"
proof (induction rs)
  case Nil
  show ?case by simp
next
  case (Cons r rs)
  from Cons.prems have tail: "\<forall>i<length rs. \<forall>e. rs ! i = Rejected e \<longrightarrow> P e"
    by (metis Suc_less_eq length_Cons nth_Cons_Suc)
  from Cons.prems have head: "\<forall>e. r = Rejected e \<longrightarrow> P e"
    by (metis length_Cons nth_Cons_0 zero_less_Suc)
  from Cons.IH [OF tail] head show ?case by (cases r) simp_all
qed

lemma filter_Cons_not_all: "filter (\<lambda>e. \<not> P e) xs = e # ys \<Longrightarrow> \<not> list_all P xs"
proof
  assume f: "filter (\<lambda>e. \<not> P e) xs = e # ys" and a: "list_all P xs"
  from a have "filter (\<lambda>e. \<not> P e) xs = []" by (simp add: list_all_iff)
  with f show False by simp
qed

section \<open>The branches of the resolution\<close>

lemma cachedPool_None [simp]: "cachedPool w None = None"
  by (simp add: cachedPool_def find_None_iff)

lemma getPoolForDid_miss:
  assumes "pools w \<noteq> []" and "cachedPool w (cache w (cacheKey d)) = None"
  shows "getPoolForDid env d w = getPoolForDid_fromPools env d w"
  using assms by (simp add: getPoolForDid_def Let_def)

lemma fromPools_none_succeeded:
  assumes "didResponses env d (pools w) w = (rs, w1)"
    and "onlyFulfilled rs = []"
  shows "getPoolForDid_fromPools env d w =
     (if list_all isNotFound (onlyRejected rs)
      then (Inl (IndySdkPoolNotFoundError (DidNotFoundOnAnyLedger d (length (pools w)))), w1)
      else (case filter (\<lambda>e. \<not> isNotFound e) (onlyRejected rs) of
              [] \<Rightarrow> (Inl (TypeError ''rejectedOtherThanNotFound[0]''), w1)
            | e # _ \<Rightarrow>
                (Inl (IndySdkPoolError
                        (UnknownErrorRetrievingDid d
                           (length (filter (\<lambda>e. \<not> isNotFound e) (onlyRejected rs))) (length (pools w)))
                        (Some e)), w1)))"
  using assms
  by (simp add: getPoolForDid_fromPools_def getSettledDidResponsesFromPools_def Let_def)

lemma fromPools_self_certified:
  assumes "didResponses env d (pools w) w = (rs, w1)"
    and "find (\<lambda>r. isSelfCertifiedDid env (nym_did (did r)) (verkey (did r))) (onlyFulfilled rs) = Some v"
  shows "getPoolForDid_fromPools env d w = (Inr \<lparr>pool = pool v, did = did v\<rparr>, cached w1 d v)"
proof -
  from assms(2) have "onlyFulfilled rs \<noteq> []" by (rule find_Some_nonempty)
  with assms show ?thesis
    by (simp add: getPoolForDid_fromPools_def getSettledDidResponsesFromPools_def Let_def cached_def)
qed

lemma fromPools_production:
  assumes "didResponses env d (pools w) w = (rs, w1)"
    and "find (\<lambda>r. isSelfCertifiedDid env (nym_did (did r)) (verkey (did r))) (onlyFulfilled rs) = None"
    and "filter (\<lambda>s. isProduction (config (heap w (pool s)))) (onlyFulfilled rs) = v # ys"
  shows "getPoolForDid_fromPools env d w = (Inr \<lparr>pool = pool v, did = did v\<rparr>, cached w1 d v)"
proof -
  from didResponses_frame [of env d "pools w" w] assms(1) have hp: "heap w1 = heap w" by simp
  from assms(3) have "onlyFulfilled rs \<noteq> []" by auto
  with assms show ?thesis
    by (simp add: getPoolForDid_fromPools_def getSettledDidResponsesFromPools_def Let_def cached_def hp)
qed

lemma fromPools_non_production:
  assumes "didResponses env d (pools w) w = (rs, w1)"
    and "find (\<lambda>r. isSelfCertifiedDid env (nym_did (did r)) (verkey (did r))) (onlyFulfilled rs) = None"
    and "filter (\<lambda>s. isProduction (config (heap w (pool s)))) (onlyFulfilled rs) = []"
    and "filter (\<lambda>s. \<not> isProduction (config (heap w (pool s)))) (onlyFulfilled rs) = v # ys"
  shows "getPoolForDid_fromPools env d w = (Inr \<lparr>pool = pool v, did = did v\<rparr>, cached w1 d v)"
proof -
  from didResponses_frame [of env d "pools w" w] assms(1) have hp: "heap w1 = heap w" by simp
  from assms(4) have "onlyFulfilled rs \<noteq> []" by auto
  with assms show ?thesis
    by (simp add: getPoolForDid_fromPools_def getSettledDidResponsesFromPools_def Let_def cached_def hp)
qed

lemma fromPools_effects:
  assumes run: "getPoolForDid_fromPools env d w = (r, w')"
    and r: "didResponses env d (pools w) w = (rs, w1)"
  shows "(\<exists>e. r = Inl e \<and> w' = w1) \<or> (\<exists>v. r = Inr \<lparr>pool = pool v, did = did v\<rparr> \<and> w' = cached w1 d v)"
proof (cases "onlyFulfilled rs = []")
  case True
  from fromPools_none_succeeded [OF r True] run show ?thesis
    by (auto split: if_splits list.splits)
next
  case False
  from didResponses_frame [of env d "pools w" w] r have hp: "heap w1 = heap w" by simp
  show ?thesis
  proof (cases "find (\<lambda>r. isSelfCertifiedDid env (nym_did (did r)) (verkey (did r))) (onlyFulfilled rs)")
    case (Some v)
    from fromPools_self_certified [OF r Some] run show ?thesis by auto
  next
    case None
    show ?thesis
    proof (cases "filter (\<lambda>s. isProduction (config (heap w (pool s)))) (onlyFulfilled rs)")
      case (Cons v ys)
      from fromPools_production [OF r None Cons] run show ?thesis by auto
    next
      case Nil
      show ?thesis
      proof (cases "filter (\<lambda>s. \<not> isProduction (config (heap w (pool s)))) (onlyFulfilled rs)")
        case (Cons v ys)
        from fromPools_non_production [OF r None Nil Cons] run show ?thesis by auto
      next
        case nonprod: Nil
        from run r False None Nil nonprod show ?thesis
          by (auto simp add: getPoolForDid_fromPools_def getSettledDidResponsesFromPools_def Let_def hp)
      qed
    qed
  qed
qed


section \<open>Claims on resolution\<close>

text \<open>
  In the statements below \<open>fst (didResponses env d (pools w) w)\<close> is the list of settled
  outcomes of the queries, one for each configured pool and in the order of the pools:
  outcome \<open>i\<close> belongs to pool \<open>pools w ! i\<close>. A call takes the network path when
  \<open>cachedPool w (cache w (cacheKey d)) = None\<close>, that is when the cache has no entry for the
  DID or the entry names no configured pool.
\<close>

text \<open>
  Claim C1. When the queries are made and some successful response is self-certified, the
  call returns the first self-certified successful response in the order of the configured
  pools, whatever the other responses are: nothing is assumed on the responses of the other
  pools, on their production flags or on their positions.
\<close>

theorem resolve_prefers_self_certified:
  assumes miss: "cachedPool w (cache w (cacheKey d)) = None"
    and i: "i < length (pools w)"
    and v: "fst (didResponses env d (pools w) w) ! i = Fulfilled v"
    and sc: "isSelfCertifiedDid env (nym_did (did v)) (verkey (did v))"
    and first: "\<forall>j<i. \<forall>u. fst (didResponses env d (pools w) w) ! j = Fulfilled u \<longrightarrow>
                  \<not> isSelfCertifiedDid env (nym_did (did u)) (verkey (did u))"
  shows "fst (getPoolForDid env d w) = Inr \<lparr>pool = pools w ! i, did = did v\<rparr>"
proof -
  obtain rs w1 where r: "didResponses env d (pools w) w = (rs, w1)"
    by (cases "didResponses env d (pools w) w")
  from i have ne: "pools w \<noteq> []" by auto
  from didResponses_length [of env d "pools w" w] r i have len: "i < length rs" by simp
  from v r have vi: "rs ! i = Fulfilled v" by simp
  from first r have f: "\<forall>j<i. \<forall>u. rs ! j = Fulfilled u \<longrightarrow>
      \<not> isSelfCertifiedDid env (nym_did (did u)) (verkey (did u))" by simp
  have "find (\<lambda>r. isSelfCertifiedDid env (nym_did (did r)) (verkey (did r))) (onlyFulfilled rs) = Some v"
    using len vi sc f by (rule find_onlyFulfilled_first)
  with r have "getPoolForDid_fromPools env d w = (Inr \<lparr>pool = pool v, did = did v\<rparr>, cached w1 d v)"
    by (rule fromPools_self_certified)
  moreover from didResponses_pool [OF i v] have "pool v = pools w ! i" .
  ultimately show ?thesis using getPoolForDid_miss [OF ne miss] by simp
qed

theorem resolve_prefers_self_certified_witness:
  "fst (getPoolForDid selfCertifiedEnv ''did1'' selfCertifiedWorld) =
     Inr \<lparr>pool = 1, did = \<lparr>nym_did = ''did1'', verkey = ''~key1'', role = ''0''\<rparr>\<rparr>"
  using resolve_prefers_self_certified [where w = selfCertifiedWorld and d = "''did1''" and i = 1
      and env = selfCertifiedEnv
      and v = "\<lparr>pool = 1, did = \<lparr>nym_did = ''did1'', verkey = ''~key1'', role = ''0''\<rparr>,
                response = \<lparr>raw = ''~key1'', data = None\<rparr>\<rparr>"]
  by (simp add: didResponses_def getDidFromPool_def getDidFromPool_catch_def cachedPool_def cacheKey_def emit_def
      pool_id_def isIndyError_def rethrow_def isNotFound_def getPoolForDid_def getPoolForDid_fromPools_def
      getSettledDidResponsesFromPools_def Let_def examplePool_def exampleEnv_def
      selfCertifiedEnv_def selfCertifiedWorld_def)

text \<open>
  Claim C2. When the queries are made, some query succeeds and no successful response is
  self-certified: if a success comes from a production pool, the call returns the first
  success of a production pool in the order of the configured pools; if none does, it
  returns the first success.
\<close>

theorem resolve_prefers_production:
  assumes miss: "cachedPool w (cache w (cacheKey d)) = None"
    and i: "i < length (pools w)"
    and v: "fst (didResponses env d (pools w) w) ! i = Fulfilled v"
    and nsc: "\<forall>j<length (pools w). \<forall>u. fst (didResponses env d (pools w) w) ! j = Fulfilled u \<longrightarrow>
                \<not> isSelfCertifiedDid env (nym_did (did u)) (verkey (did u))"
  shows "(isProduction (config (heap w (pools w ! i))) \<and>
          (\<forall>j<i. \<forall>u. fst (didResponses env d (pools w) w) ! j = Fulfilled u \<longrightarrow>
                 \<not> isProduction (config (heap w (pools w ! j))))
          \<longrightarrow> fst (getPoolForDid env d w) = Inr \<lparr>pool = pools w ! i, did = did v\<rparr>)
       \<and> ((\<forall>j<length (pools w). \<forall>u. fst (didResponses env d (pools w) w) ! j = Fulfilled u \<longrightarrow>
                 \<not> isProduction (config (heap w (pools w ! j)))) \<and>
          (\<forall>j<i. \<forall>u. fst (didResponses env d (pools w) w) ! j \<noteq> Fulfilled u)
          \<longrightarrow> fst (getPoolForDid env d w) = Inr \<lparr>pool = pools w ! i, did = did v\<rparr>)"
proof -
  obtain rs w1 where r: "didResponses env d (pools w) w = (rs, w1)"
    by (cases "didResponses env d (pools w) w")
  from i have ne: "pools w \<noteq> []" by auto
  from didResponses_length [of env d "pools w" w] r have len: "length rs = length (pools w)" by simp
  from v r have vi: "rs ! i = Fulfilled v" by simp
  from didResponses_pool [of _ "pools w" env d w] r
  have pl: "\<And>j u. j < length (pools w) \<Longrightarrow> rs ! j = Fulfilled u \<Longrightarrow> pool u = pools w ! j" by simp
  from pl [OF i vi] have pv: "pool v = pools w ! i" .
  from nsc r len have "\<forall>j<length rs. \<forall>u. rs ! j = Fulfilled u \<longrightarrow>
      \<not> isSelfCertifiedDid env (nym_did (did u)) (verkey (did u))" by simp
  then have none: "find (\<lambda>r. isSelfCertifiedDid env (nym_did (did r)) (verkey (did r))) (onlyFulfilled rs) = None"
    by (rule find_onlyFulfilled_none)
  have prod: "fst (getPoolForDid env d w) = Inr \<lparr>pool = pools w ! i, did = did v\<rparr>"
    if p: "isProduction (config (heap w (pools w ! i)))"
      and e: "\<forall>j<i. \<forall>u. rs ! j = Fulfilled u \<longrightarrow> \<not> isProduction (config (heap w (pools w ! j)))"
  proof -
    from e pl i have e': "\<forall>j<i. \<forall>u. rs ! j = Fulfilled u \<longrightarrow> \<not> isProduction (config (heap w (pool u)))"
      by (metis less_trans)
    from p pv have p': "isProduction (config (heap w (pool v)))" by simp
    from i len have "i < length rs" by simp
    then have "find (\<lambda>s. isProduction (config (heap w (pool s)))) (onlyFulfilled rs) = Some v"
      using vi p' e' by (rule find_onlyFulfilled_first)
    then have "\<exists>ys. filter (\<lambda>s. isProduction (config (heap w (pool s)))) (onlyFulfilled rs) = v # ys" by (rule find_filter_hd)
    then obtain ys where "filter (\<lambda>s. isProduction (config (heap w (pool s)))) (onlyFulfilled rs) = v # ys" by auto
    with r none have "getPoolForDid_fromPools env d w = (Inr \<lparr>pool = pool v, did = did v\<rparr>, cached w1 d v)"
      by (rule fromPools_production)
    with pv show ?thesis using getPoolForDid_miss [OF ne miss] by simp
  qed
  have nonprod: "fst (getPoolForDid env d w) = Inr \<lparr>pool = pools w ! i, did = did v\<rparr>"
    if np: "\<forall>j<length (pools w). \<forall>u. rs ! j = Fulfilled u \<longrightarrow> \<not> isProduction (config (heap w (pools w ! j)))"
      and e: "\<forall>j<i. \<forall>u. rs ! j \<noteq> Fulfilled u"
  proof -
    from np pl len have np': "\<forall>j<length rs. \<forall>u. rs ! j = Fulfilled u \<longrightarrow> \<not> isProduction (config (heap w (pool u)))"
      by metis
    then have "find (\<lambda>s. isProduction (config (heap w (pool s)))) (onlyFulfilled rs) = None"
      by (rule find_onlyFulfilled_none)
    then have noprod: "filter (\<lambda>s. isProduction (config (heap w (pool s)))) (onlyFulfilled rs) = []"
      by (rule find_filter_nil)
    from i len have il: "i < length rs" by simp
    with np' vi have p': "\<not> isProduction (config (heap w (pool v)))" by blast
    from e have e': "\<forall>j<i. \<forall>u. rs ! j = Fulfilled u \<longrightarrow> \<not> \<not> isProduction (config (heap w (pool u)))"
      by blast
    from il vi p' e'
    have "find (\<lambda>s. \<not> isProduction (config (heap w (pool s)))) (onlyFulfilled rs) = Some v"
      by (rule find_onlyFulfilled_first)
    then have "\<exists>ys. filter (\<lambda>s. \<not> isProduction (config (heap w (pool s)))) (onlyFulfilled rs) = v # ys" by (rule find_filter_hd)
    then obtain ys where "filter (\<lambda>s. \<not> isProduction (config (heap w (pool s)))) (onlyFulfilled rs) = v # ys" by auto
    with r none noprod
    have "getPoolForDid_fromPools env d w = (Inr \<lparr>pool = pool v, did = did v\<rparr>, cached w1 d v)"
      by (rule fromPools_non_production)
    with pv show ?thesis using getPoolForDid_miss [OF ne miss] by simp
  qed
  from prod nonprod r show ?thesis by simp
qed

theorem resolve_prefers_production_witness:
  "fst (getPoolForDid fullKeyEnv ''did1'' stagingFirstWorld) = Inr \<lparr>pool = 1, did = exampleNym\<rparr>
   \<and> fst (getPoolForDid secondOnlyEnv ''did1'' stagingWorld) = Inr \<lparr>pool = 1, did = exampleNym\<rparr>"
  using resolve_prefers_production [where w = stagingFirstWorld and d = "''did1''" and i = 1
      and env = fullKeyEnv
      and v = "\<lparr>pool = 1, did = exampleNym, response = \<lparr>raw = ''key'', data = None\<rparr>\<rparr>"]
    resolve_prefers_production [where w = stagingWorld and d = "''did1''" and i = 1
      and env = secondOnlyEnv
      and v = "\<lparr>pool = 1, did = exampleNym, response = \<lparr>raw = ''key'', data = None\<rparr>\<rparr>"]
  by (simp add: didResponses_def getDidFromPool_def getDidFromPool_catch_def cachedPool_def cacheKey_def emit_def
      pool_id_def isIndyError_def rethrow_def isNotFound_def getPoolForDid_def getPoolForDid_fromPools_def
      getSettledDidResponsesFromPools_def Let_def examplePool_def exampleEnv_def
      fullKeyEnv_def secondOnlyEnv_def stagingFirstWorld_def stagingWorld_def exampleNym_def)

text \<open>
  Claim C3. With a pool configured and no usable cache entry, when every query fails: if
  every failure is a not-found error the call fails with \<^verbatim>\<open>IndySdkPoolNotFoundError\<close>,
  whose message carries the DID and the number of configured pools; otherwise it fails with
  \<^verbatim>\<open>IndySdkPoolError\<close> whose cause is the first failure, in the order of the pools, that is
  not a not-found error.
\<close>

theorem resolve_all_failed:
  assumes ne: "pools w \<noteq> []"
    and miss: "cachedPool w (cache w (cacheKey d)) = None"
    and fail: "\<forall>i<length (pools w). \<exists>e. fst (didResponses env d (pools w) w) ! i = Rejected e"
  shows "((\<forall>i<length (pools w). \<forall>e. fst (didResponses env d (pools w) w) ! i = Rejected e \<longrightarrow> isNotFound e)
          \<longrightarrow> fst (getPoolForDid env d w) =
                Inl (IndySdkPoolNotFoundError (DidNotFoundOnAnyLedger d (length (pools w)))))
       \<and> (i < length (pools w) \<and> fst (didResponses env d (pools w) w) ! i = Rejected e \<and> \<not> isNotFound e \<and>
          (\<forall>j<i. \<forall>x. fst (didResponses env d (pools w) w) ! j = Rejected x \<longrightarrow> isNotFound x)
          \<longrightarrow> fst (getPoolForDid env d w) =
                Inl (IndySdkPoolError
                       (UnknownErrorRetrievingDid d
                          (length (filter (\<lambda>x. \<not> isNotFound x)
                             (onlyRejected (fst (didResponses env d (pools w) w)))))
                          (length (pools w)))
                       (Some e)))"
proof -
  obtain rs w1 where r: "didResponses env d (pools w) w = (rs, w1)"
    by (cases "didResponses env d (pools w) w")
  from didResponses_length [of env d "pools w" w] r have len: "length rs = length (pools w)" by simp
  from fail r len have "\<forall>i<length rs. \<exists>e. rs ! i = Rejected e" by simp
  then have nil: "onlyFulfilled rs = []" by (rule onlyFulfilled_nil)
  note unfold = fromPools_none_succeeded [OF r nil] getPoolForDid_miss [OF ne miss]
  have a: "fst (getPoolForDid env d w) =
      Inl (IndySdkPoolNotFoundError (DidNotFoundOnAnyLedger d (length (pools w))))"
    if "\<forall>i<length (pools w). \<forall>e. rs ! i = Rejected e \<longrightarrow> isNotFound e"
  proof -
    from that len have "\<forall>i<length rs. \<forall>e. rs ! i = Rejected e \<longrightarrow> isNotFound e" by simp
    then have "list_all isNotFound (onlyRejected rs)" by (rule onlyRejected_all)
    with unfold show ?thesis by simp
  qed
  have b: "fst (getPoolForDid env d w) =
      Inl (IndySdkPoolError
             (UnknownErrorRetrievingDid d
                (length (filter (\<lambda>x. \<not> isNotFound x) (onlyRejected rs))) (length (pools w)))
             (Some e))"
    if "i < length (pools w)" "rs ! i = Rejected e" "\<not> isNotFound e"
      "\<forall>j<i. \<forall>x. rs ! j = Rejected x \<longrightarrow> isNotFound x"
  proof -
    from that(1) len have il: "i < length rs" by simp
    from that(4) have e': "\<forall>j<i. \<forall>x. rs ! j = Rejected x \<longrightarrow> \<not> \<not> isNotFound x" by simp
    from il that(2,3) e' have "find (\<lambda>x. \<not> isNotFound x) (onlyRejected rs) = Some e"
      by (rule find_onlyRejected_first)
    then have "\<exists>ys. filter (\<lambda>x. \<not> isNotFound x) (onlyRejected rs) = e # ys" by (rule find_filter_hd)
    then obtain ys where f: "filter (\<lambda>x. \<not> isNotFound x) (onlyRejected rs) = e # ys" by auto
    then have "\<not> list_all isNotFound (onlyRejected rs)" by (rule filter_Cons_not_all)
    with unfold f show ?thesis by simp
  qed
  from a b r show ?thesis by simp
qed

theorem resolve_all_failed_witness:
  "fst (getPoolForDid exampleEnv ''did1'' stagingWorld) =
     Inl (IndySdkPoolNotFoundError (DidNotFoundOnAnyLedger ''did1'' 2))
   \<and> fst (getPoolForDid timeoutEnv ''did1'' stagingWorld) =
     Inl (IndySdkPoolError (UnknownErrorRetrievingDid ''did1'' 1 2) (Some (OtherError ''timeout'')))"
  using resolve_all_failed [where w = stagingWorld and d = "''did1''" and env = exampleEnv
      and i = 0 and e = "OtherError ''timeout''"]
    resolve_all_failed [where w = stagingWorld and d = "''did1''" and env = timeoutEnv
      and i = 1 and e = "OtherError ''timeout''"]
  by (simp add: didResponses_def getDidFromPool_def getDidFromPool_catch_def cachedPool_def cacheKey_def emit_def
      pool_id_def isIndyError_def rethrow_def isNotFound_def getPoolForDid_def getPoolForDid_fromPools_def
      getSettledDidResponsesFromPools_def Let_def examplePool_def exampleEnv_def
      timeoutEnv_def stagingWorld_def)

text \<open>
  Claim C4. If the cache holds an entry for the DID whose \<^verbatim>\<open>poolId\<close> is the id of a
  configured pool, the call returns the cached record with a configured pool of that id
  and leaves the state as it was: no query is sent. If no configured pool has the id of the
  entry, the call continues as on a miss: it is the body after the cache lookup, with one
  outcome for each configured pool and, when the request can be built, one read request
  sent to each configured pool in order.
\<close>

theorem cache_hit_short_circuit:
  "(cache w (cacheKey d) = Some c \<and> p \<in> set (pools w) \<and> pool_id (heap w p) = poolId c
      \<longrightarrow> (\<exists>q. q \<in> set (pools w) \<and> pool_id (heap w q) = poolId c \<and>
               getPoolForDid env d w = (Inr \<lparr>pool = q, did = nymResponse c\<rparr>, w)))
   \<and> (cache w (cacheKey d) = Some c \<and> pools w \<noteq> [] \<and>
       (\<forall>q\<in>set (pools w). pool_id (heap w q) \<noteq> poolId c)
      \<longrightarrow> getPoolForDid env d w = getPoolForDid_fromPools env d w \<and>
          length (fst (didResponses env d (pools w) w)) = length (pools w) \<and>
          (\<forall>req. indySdk_buildGetNymRequest env d = Inr req \<longrightarrow>
             filter isReadRequest (newEvents w (snd (getPoolForDid env d w))) =
               map (\<lambda>q. ReadRequest q req) (pools w)))"
proof (intro conjI impI)
  assume h: "cache w (cacheKey d) = Some c \<and> p \<in> set (pools w) \<and> pool_id (heap w p) = poolId c"
  then have "\<exists>q. cachedPool w (Some c) = Some q"
    by (cases "cachedPool w (Some c)") (auto simp: cachedPool_def find_None_iff)
  then obtain q where q: "cachedPool w (Some c) = Some q" ..
  then have "q \<in> set (pools w)" "pool_id (heap w q) = poolId c"
    by (auto simp: cachedPool_def find_Some_iff)
  moreover from h q have "getPoolForDid env d w = (Inr \<lparr>pool = q, did = nymResponse c\<rparr>, w)"
    by (auto simp: getPoolForDid_def Let_def)
  ultimately show "\<exists>q. q \<in> set (pools w) \<and> pool_id (heap w q) = poolId c \<and>
               getPoolForDid env d w = (Inr \<lparr>pool = q, did = nymResponse c\<rparr>, w)" by blast
next
  assume h: "cache w (cacheKey d) = Some c \<and> pools w \<noteq> [] \<and>
       (\<forall>q\<in>set (pools w). pool_id (heap w q) \<noteq> poolId c)"
  then have miss: "cachedPool w (cache w (cacheKey d)) = None"
    by (auto simp: cachedPool_def find_None_iff)
  from h have ne: "pools w \<noteq> []" by simp
  show eq: "getPoolForDid env d w = getPoolForDid_fromPools env d w"
    using ne miss by (rule getPoolForDid_miss)
  show "length (fst (didResponses env d (pools w) w)) = length (pools w)"
    by (rule didResponses_length)
  show "\<forall>req. indySdk_buildGetNymRequest env d = Inr req \<longrightarrow>
             filter isReadRequest (newEvents w (snd (getPoolForDid env d w))) =
               map (\<lambda>q. ReadRequest q req) (pools w)"
  proof (intro allI impI)
    fix req assume b: "indySdk_buildGetNymRequest env d = Inr req"
    obtain rs w1 where r: "didResponses env d (pools w) w = (rs, w1)"
      by (cases "didResponses env d (pools w) w")
    obtain res w' where run: "getPoolForDid_fromPools env d w = (res, w')"
      by (cases "getPoolForDid_fromPools env d w")
    from didResponses_events [OF r] b
    have t1: "trace w1 = trace w @ map (\<lambda>q. ReadRequest q req) (pools w)" by simp
    from fromPools_effects [OF run r]
    have "filter isReadRequest (newEvents w w') = map (\<lambda>q. ReadRequest q req) (pools w)"
    proof
      assume "\<exists>e. res = Inl e \<and> w' = w1"
      with t1 show ?thesis by auto
    next
      assume "\<exists>v. res = Inr \<lparr>pool = pool v, did = did v\<rparr> \<and> w' = cached w1 d v"
      then obtain v where "w' = cached w1 d v" by blast
      with t1 have "trace w' = trace w @ (map (\<lambda>q. ReadRequest q req) (pools w) @
          [CacheSet (cacheKey d) \<lparr>nymResponse = did v, poolId = pool_id (heap w1 (pool v))\<rparr>])"
        by (simp add: cached_def)
      then have "newEvents w w' = map (\<lambda>q. ReadRequest q req) (pools w) @
          [CacheSet (cacheKey d) \<lparr>nymResponse = did v, poolId = pool_id (heap w1 (pool v))\<rparr>]"
        by (rule newEvents_append)
      then show ?thesis by simp
    qed
    with eq run show "filter isReadRequest (newEvents w (snd (getPoolForDid env d w))) =
               map (\<lambda>q. ReadRequest q req) (pools w)" by simp
  qed
qed

theorem cache_hit_short_circuit_witness:
  "getPoolForDid exampleEnv ''did1'' cachedWorld = (Inr \<lparr>pool = 1, did = exampleNym\<rparr>, cachedWorld)
   \<and> filter isReadRequest (newEvents staleWorld (snd (getPoolForDid fullKeyEnv ''did1'' staleWorld))) =
       [ReadRequest 0 (LedgerRequest ''did1''), ReadRequest 1 (LedgerRequest ''did1'')]"
  using cache_hit_short_circuit [where w = cachedWorld and d = "''did1''" and env = exampleEnv
      and p = 1 and c = "\<lparr>nymResponse = exampleNym, poolId = ''B''\<rparr>"]
    cache_hit_short_circuit [where w = staleWorld and d = "''did1''" and env = fullKeyEnv
      and p = 1 and c = "\<lparr>nymResponse = exampleNym, poolId = ''Z''\<rparr>"]
  by (simp add: didResponses_def getDidFromPool_def getDidFromPool_catch_def cachedPool_def cacheKey_def emit_def
      pool_id_def isIndyError_def rethrow_def isNotFound_def getPoolForDid_def getPoolForDid_fromPools_def
      getSettledDidResponsesFromPools_def Let_def examplePool_def exampleEnv_def
      newEvents_def fullKeyEnv_def cachedWorld_def staleWorld_def stagingFirstWorld_def exampleNym_def)

section \<open>Frame lemmas of the pool registry and the write coordinator\<close>

lemma connectLoop_frame:
  "pools (snd (connectLoop env ps hs w)) = pools w \<and>
   heap (snd (connectLoop env ps hs w)) = heap w \<and>
   cache (snd (connectLoop env ps hs w)) = cache w"
  by (induction ps arbitrary: hs w) (simp_all split: sum.splits)

lemma connectLoop_attempts:
  "connectLoop env ps hs w = (r, w') \<Longrightarrow>
   \<exists>k\<le>length ps. trace w' = trace w @ map Connect (take k ps) \<and>
     (\<forall>i<k - 1. \<exists>h. pool_connect env (trace w @ map Connect (take i ps)) (ps ! i) = Inr h) \<and>
     (case r of
        Inl e \<Rightarrow> 0 < k \<and> pool_connect env (trace w @ map Connect (take (k - 1) ps)) (ps ! (k - 1)) = Inl e
      | Inr hs' \<Rightarrow> k = length ps \<and> length hs' = length hs + length ps \<and> take (length hs) hs' = hs \<and>
          (\<forall>i<length ps. pool_connect env (trace w @ map Connect (take i ps)) (ps ! i) = Inr (hs' ! (length hs + i))))"
proof (induction ps arbitrary: hs w)
  case Nil
  then show ?case by auto
next
  case (Cons p ps)
  show ?case
  proof (cases "pool_connect env (trace w) p")
    case (Inl e)
    with Cons.prems have "r = Inl e" "w' = emit (Connect p) w" by auto
    with Inl show ?thesis by (intro exI [of _ 1]) simp
  next
    case (Inr h)
    with Cons.prems have rec: "connectLoop env ps (hs @ [h]) (emit (Connect p) w) = (r, w')" by simp
    from Cons.IH [OF rec] obtain k where k: "k \<le> length ps"
      and tr: "trace w' = trace (emit (Connect p) w) @ map Connect (take k ps)"
      and ok: "\<forall>i<k - 1. \<exists>h. pool_connect env (trace (emit (Connect p) w) @ map Connect (take i ps)) (ps ! i) = Inr h"
      and res: "(case r of
        Inl e \<Rightarrow> 0 < k \<and> pool_connect env (trace (emit (Connect p) w) @ map Connect (take (k - 1) ps)) (ps ! (k - 1)) = Inl e
      | Inr hs' \<Rightarrow> k = length ps \<and> length hs' = length (hs @ [h]) + length ps \<and> take (length (hs @ [h])) hs' = hs @ [h] \<and>
          (\<forall>i<length ps. pool_connect env (trace (emit (Connect p) w) @ map Connect (take i ps)) (ps ! i) = Inr (hs' ! (length (hs @ [h]) + i))))"
      by blast
    have a: "Suc k \<le> length (p # ps)" using k by simp
    have b: "trace w' = trace w @ map Connect (take (Suc k) (p # ps))" using tr by simp
    have c: "\<forall>i<Suc k - 1. \<exists>h. pool_connect env (trace w @ map Connect (take i (p # ps))) ((p # ps) ! i) = Inr h"
    proof (intro allI impI)
      fix i assume i: "i < Suc k - 1"
      show "\<exists>h. pool_connect env (trace w @ map Connect (take i (p # ps))) ((p # ps) ! i) = Inr h"
      proof (cases i)
        case 0
        with Inr show ?thesis by simp
      next
        case (Suc j)
        with i have "j < k - 1" by simp
        with ok Suc show ?thesis by simp
      qed
    qed
    have d: "(case r of
        Inl e \<Rightarrow> 0 < Suc k \<and> pool_connect env (trace w @ map Connect (take (Suc k - 1) (p # ps))) ((p # ps) ! (Suc k - 1)) = Inl e
      | Inr hs' \<Rightarrow> Suc k = length (p # ps) \<and> length hs' = length hs + length (p # ps) \<and> take (length hs) hs' = hs \<and>
          (\<forall>i<length (p # ps). pool_connect env (trace w @ map Connect (take i (p # ps))) ((p # ps) ! i) = Inr (hs' ! (length hs + i))))"
    proof (cases r)
      case (Inl e)
      with res have k0: "0 < k"
        and f: "pool_connect env (trace (emit (Connect p) w) @ map Connect (take (k - 1) ps)) (ps ! (k - 1)) = Inl e"
        by simp_all
      from k0 obtain m where m: "k = Suc m" by (cases k) auto
      with f Inl show ?thesis by simp
    next
      case hs': (Inr hs')
      with res have kl: "k = length ps" and len: "length hs' = Suc (length hs) + length ps"
        and pre: "take (Suc (length hs)) hs' = hs @ [h]"
        and each: "\<forall>i<length ps. pool_connect env (trace (emit (Connect p) w) @ map Connect (take i ps)) (ps ! i) = Inr (hs' ! (Suc (length hs) + i))"
        by simp_all
      have "take (length hs) (take (Suc (length hs)) hs') = take (length hs) (hs @ [h])"
        using pre by simp
      then have t1: "take (length hs) hs' = hs" by simp
      have "take (Suc (length hs)) hs' ! length hs = (hs @ [h]) ! length hs"
        using pre by simp
      then have t2: "hs' ! length hs = h" by simp
      have "\<forall>i<length (p # ps). pool_connect env (trace w @ map Connect (take i (p # ps))) ((p # ps) ! i) = Inr (hs' ! (length hs + i))"
      proof (intro allI impI)
        fix i assume i: "i < length (p # ps)"
        show "pool_connect env (trace w @ map Connect (take i (p # ps))) ((p # ps) ! i) = Inr (hs' ! (length hs + i))"
        proof (cases i)
          case 0
          with Inr t2 show ?thesis by simp
        next
          case (Suc j)
          with i have "j < length ps" by simp
          with each Suc show ?thesis by simp
        qed
      qed
      with hs' kl len t1 show ?thesis by simp
    qed
    from a b c d show ?thesis by blast
  qed
qed

lemma filter_map_Connect [simp]: "filter isCacheSet (map Connect ps) = []"
  by (induction ps) simp_all

lemma connectToPools_cache:
  "cache (snd (connectToPools env w)) = cache w \<and>
   filter isCacheSet (newEvents w (snd (connectToPools env w))) = []"
proof -
  obtain r w' where c: "connectLoop env (pools w) [] w = (r, w')" by (cases "connectLoop env (pools w) [] w")
  from connectLoop_attempts [OF c] obtain k where "trace w' = trace w @ map Connect (take k (pools w))"
    by (elim exE conjE)
  then have "newEvents w w' = map Connect (take k (pools w))" by (rule newEvents_append)
  moreover from connectLoop_frame [of env "pools w" "[]" w] c have "cache w' = cache w" by simp
  ultimately show ?thesis using c by (simp add: connectToPools_def)
qed

lemma setAuthorAgreement_simps [simp]:
  "pools (setAuthorAgreement p a w) = pools w"
  "cache (setAuthorAgreement p a w) = cache w"
  "trace (setAuthorAgreement p a w) = trace w"
  "config (heap (setAuthorAgreement p a w) q) = config (heap w q)"
  "authorAgreement (heap (setAuthorAgreement p a w) p) = Some a"
  "q \<noteq> p \<Longrightarrow> heap (setAuthorAgreement p a w) q = heap w q"
  by (simp_all add: setAuthorAgreement_def)

lemma submitReadRequest_effect:
  "snd (submitReadRequest env p request w) = emit (ReadRequest p request) w"
  by (simp add: submitReadRequest_def split: sum.splits)


lemma getTAA_frame:
  assumes "getTransactionAuthorAgreement env p w = (r, w')"
  shows "pools w' = pools w \<and> cache w' = cache w \<and> (\<forall>q. config (heap w' q) = config (heap w q)) \<and>
         (\<forall>q. q \<noteq> p \<longrightarrow> heap w' q = heap w q) \<and>
         (\<exists>evs. trace w' = trace w @ evs \<and> filter isReadRequest evs = evs \<and> length evs \<le> 2)"
proof (cases "authorAgreement (heap w p)")
  case (Some a)
  with assms show ?thesis by (simp add: getTransactionAuthorAgreement_def)
next
  case None
  show ?thesis
  proof (cases "indySdk_buildGetTxnAuthorAgreementRequest env")
    case (Inl e)
    with assms None show ?thesis by (simp add: getTransactionAuthorAgreement_def)
  next
    case r1: (Inr r1)
    obtain x1 w1 where s1: "submitReadRequest env p r1 w = (x1, w1)" by (cases "submitReadRequest env p r1 w")
    from submitReadRequest_effect [of env p r1 w] s1 have w1: "w1 = emit (ReadRequest p r1) w" by simp
    show ?thesis
    proof (cases x1)
      case (Inl e)
      with assms None r1 s1 w1 show ?thesis by (auto simp add: getTransactionAuthorAgreement_def)
    next
      case t1: (Inr t1)
      show ?thesis
      proof (cases "indySdk_buildGetAcceptanceMechanismsRequest env")
        case (Inl e)
        with assms None r1 s1 w1 t1 show ?thesis by (auto simp add: getTransactionAuthorAgreement_def)
      next
        case r2: (Inr r2)
        obtain x2 w2 where s2: "submitReadRequest env p r2 w1 = (x2, w2)" by (cases "submitReadRequest env p r2 w1")
        from submitReadRequest_effect [of env p r2 w1] s2 have w2: "w2 = emit (ReadRequest p r2) w1" by simp
        show ?thesis
        proof (cases x2)
          case (Inl e)
          with assms None r1 s1 w1 t1 r2 s2 w2 show ?thesis
            by (auto simp add: getTransactionAuthorAgreement_def)
        next
          case t2: (Inr t2)
          with assms None r1 s1 w1 t1 r2 s2 w2 show ?thesis
            by (cases "data t1") (auto simp add: getTransactionAuthorAgreement_def Let_def)
        qed
      qed
    qed
  qed
qed



lemma appendTaa_effect:
  assumes "getTransactionAuthorAgreement env p w = (r, w1)"
  shows "snd (appendTaa env p request w) = w1"
  using assms
  by (simp add: appendTaa_def Let_def split: sum.splits option.splits)

lemma signRequest_effect:
  "snd (signRequest env agentContext signDid request w) =
     (case assertIndySdkWallet env agentContext of
        Inl e \<Rightarrow> w | Inr h \<Rightarrow> emit (SignRequest signDid request) w)"
  by (simp add: signRequest_def split: sum.splits)

lemma submitWriteRequest_effect:
  assumes "getTransactionAuthorAgreement env p w = (r, w1)"
  shows "pools (snd (submitWriteRequest env agentContext p request signDid w)) = pools w1 \<and>
         heap (snd (submitWriteRequest env agentContext p request signDid w)) = heap w1 \<and>
         cache (snd (submitWriteRequest env agentContext p request signDid w)) = cache w1 \<and>
         (\<exists>evs. trace (snd (submitWriteRequest env agentContext p request signDid w)) = trace w1 @ evs \<and>
                filter isReadRequest evs = [] \<and> filter isCacheSet evs = [])"
proof -
  obtain x wa where a: "appendTaa env p request w = (x, wa)" by (cases "appendTaa env p request w")
  from appendTaa_effect [OF assms, of request] a have wa: "wa = w1" by simp
  show ?thesis
  proof (cases x)
    case (Inl e)
    with a wa show ?thesis by (simp add: submitWriteRequest_def)
  next
    case (Inr requestWithTaa)
    obtain y wb where s: "signRequest env agentContext signDid requestWithTaa w1 = (y, wb)"
      by (cases "signRequest env agentContext signDid requestWithTaa w1")
    from signRequest_effect [of env agentContext signDid requestWithTaa w1] s
    have wb: "wb = (case assertIndySdkWallet env agentContext of
        Inl e \<Rightarrow> w1 | Inr h \<Rightarrow> emit (SignRequest signDid requestWithTaa) w1)" by simp
    show ?thesis
    proof (cases "assertIndySdkWallet env agentContext")
      case (Inl e)
      with a wa Inr s wb show ?thesis
        by (cases y) (auto simp add: submitWriteRequest_def signRequest_def)
    next
      case h: (Inr h)
      with a wa Inr s wb show ?thesis
        by (cases y) (auto simp add: submitWriteRequest_def split: sum.splits)
    qed
  qed
qed

lemma read_not_cache_set: "isReadRequest ev \<Longrightarrow> \<not> isCacheSet ev"
  by (cases ev) simp_all

lemma reads_not_cache_sets: "filter isReadRequest evs = evs \<Longrightarrow> filter isCacheSet evs = []"
  by (simp add: filter_id_conv filter_empty_conv read_not_cache_set)

lemma perform_cache:
  assumes "\<forall>d. op \<noteq> GetPoolForDid d"
  shows "cache (perform env op w) = cache w \<and> filter isCacheSet (newEvents w (perform env op w)) = []"
proof (cases op)
  case ConnectToPools
  with connectToPools_cache [of env w] show ?thesis by simp
next
  case (GetPoolForDid d)
  with assms show ?thesis by simp
next
  case (SubmitReadRequest p request)
  have "trace (emit (ReadRequest p request) w) = trace w @ [ReadRequest p request]" by simp
  from newEvents_append [OF this] SubmitReadRequest show ?thesis
    by (simp add: submitReadRequest_effect)
next
  case (SubmitWriteRequest agentContext p request signDid)
  obtain r w1 where g: "getTransactionAuthorAgreement env p w = (r, w1)"
    by (cases "getTransactionAuthorAgreement env p w")
  let ?w = "snd (submitWriteRequest env agentContext p request signDid w)"
  from getTAA_frame [OF g] obtain evs1 where c1: "cache w1 = cache w"
    and t1: "trace w1 = trace w @ evs1" and r1: "filter isReadRequest evs1 = evs1"
    by (elim exE conjE)
  from submitWriteRequest_effect [OF g, of agentContext request signDid] obtain evs2
    where c2: "cache ?w = cache w1" and t2: "trace ?w = trace w1 @ evs2" and r2: "filter isCacheSet evs2 = []"
    by (elim exE conjE)
  from t1 t2 have "trace ?w = trace w @ (evs1 @ evs2)" by simp
  then have "newEvents w ?w = evs1 @ evs2" by (rule newEvents_append)
  with reads_not_cache_sets [OF r1] r2 c1 c2 SubmitWriteRequest show ?thesis by simp
qed



lemma rethrow_pool_error [simp]: "rethrow (IndySdkPoolError m c) = IndySdkPoolError m c"
  by (simp add: rethrow_def isIndyError_def)

lemma getPoolForDid_cache_effects:
  assumes run: "getPoolForDid env d w = (r, w')"
  shows "(cachedPool w (cache w (cacheKey d)) \<noteq> None \<longrightarrow> w' = w)
       \<and> (\<forall>e. r = Inl e \<longrightarrow> cache w' = cache w \<and> filter isCacheSet (newEvents w w') = [])
       \<and> (\<forall>v. r = Inr v \<and> cachedPool w (cache w (cacheKey d)) = None \<longrightarrow>
            cache w' = (cache w)(cacheKey d \<mapsto> \<lparr>nymResponse = did v, poolId = pool_id (heap w (pool v))\<rparr>) \<and>
            filter isCacheSet (newEvents w w') =
              [CacheSet (cacheKey d) \<lparr>nymResponse = did v, poolId = pool_id (heap w (pool v))\<rparr>])"
proof (cases "pools w = [] \<or> cachedPool w (cache w (cacheKey d)) \<noteq> None")
  case True
  then have "w' = w \<and> (pools w = [] \<longrightarrow> (\<exists>e. r = Inl e))"
  proof
    assume "pools w = []"
    with run show ?thesis by (auto simp: getPoolForDid_def)
  next
    assume hit: "cachedPool w (cache w (cacheKey d)) \<noteq> None"
    then have "cache w (cacheKey d) \<noteq> None" by (cases "cache w (cacheKey d)") simp_all
    moreover from hit have "pools w \<noteq> []" by (auto simp: cachedPool_def)
    ultimately show ?thesis using run hit by (auto simp: getPoolForDid_def Let_def)
  qed
  with True show ?thesis by (auto simp: cachedPool_def)
next
  case False
  then have ne: "pools w \<noteq> []" and miss: "cachedPool w (cache w (cacheKey d)) = None" by simp_all
  obtain rs w1 where rr: "didResponses env d (pools w) w = (rs, w1)"
    by (cases "didResponses env d (pools w) w")
  from getPoolForDid_miss [OF ne miss] run have run': "getPoolForDid_fromPools env d w = (r, w')" by simp
  from didResponses_frame [of env d "pools w" w] rr
  have fr: "heap w1 = heap w" "cache w1 = cache w" by simp_all
  obtain evs where t1: "trace w1 = trace w @ evs" and nocs: "filter isCacheSet evs = []"
  proof (cases "indySdk_buildGetNymRequest env d")
    case (Inl e)
    with didResponses_events [OF rr] have "trace w1 = trace w @ []" by simp
    then show ?thesis using that by simp
  next
    case (Inr req)
    with didResponses_events [OF rr] have "trace w1 = trace w @ map (\<lambda>q. ReadRequest q req) (pools w)" by simp
    then show ?thesis using that by simp
  qed
  from fromPools_effects [OF run' rr] show ?thesis
  proof
    assume "\<exists>e. r = Inl e \<and> w' = w1"
    with miss fr t1 nocs show ?thesis by auto
  next
    assume "\<exists>v. r = Inr \<lparr>pool = pool v, did = did v\<rparr> \<and> w' = cached w1 d v"
    then obtain v where v: "r = Inr \<lparr>pool = pool v, did = did v\<rparr>" "w' = cached w1 d v" by blast
    from v(2) t1 have "trace w' = trace w @ (evs @
          [CacheSet (cacheKey d) \<lparr>nymResponse = did v, poolId = pool_id (heap w (pool v))\<rparr>])"
      by (simp add: cached_def fr)
    then have "newEvents w w' = evs @
          [CacheSet (cacheKey d) \<lparr>nymResponse = did v, poolId = pool_id (heap w (pool v))\<rparr>]"
      by (rule newEvents_append)
    with nocs have "filter isCacheSet (newEvents w w') =
          [CacheSet (cacheKey d) \<lparr>nymResponse = did v, poolId = pool_id (heap w (pool v))\<rparr>]" by simp
    moreover from v(2) have "cache w' = (cache w)(cacheKey d \<mapsto> \<lparr>nymResponse = did v, poolId = pool_id (heap w (pool v))\<rparr>)"
      by (simp add: cached_def fr)
    ultimately show ?thesis using v(1) miss by auto
  qed
qed

section \<open>A call resumed alone is the whole call\<close>

lemma appendTaa_resumes:
  "appendTaa env p request w =
     (case getTransactionAuthorAgreement env p w of
        (fetched, w1) \<Rightarrow> (appendTaa_resumed env p request fetched w1, w1))"
  by (simp add: appendTaa_def appendTaa_resumed_def Let_def split: prod.splits sum.splits option.splits)

lemma runAlone_add:
  "runAlone env (m + n) c w = (case runAlone env m c w of (c1, w1) \<Rightarrow> runAlone env n c1 w1)"
  by (induction m arbitrary: c w) (simp_all split: prod.splits)

lemma resumeCall_settled: "at c = Settled r \<Longrightarrow> resumeCall env c w = (c, w)"
  by (simp add: resumeCall_def)

lemma runAlone_settled: "at c = Settled r \<Longrightarrow> runAlone env n c w = (c, w)"
  by (induction n) (simp_all add: resumeCall_settled)

lemma fetch_steps:
  assumes "at c = Check"
  shows "\<exists>k\<le>5. runAlone env k c w =
           (c\<lparr>at := Fetched (fst (getTransactionAuthorAgreement env (call_pool c) w))\<rparr>,
            snd (getTransactionAuthorAgreement env (call_pool c) w))"
proof (cases "authorAgreement (heap w (call_pool c))")
  case (Some a)
  with assms have "runAlone env (Suc 0) c w =
           (c\<lparr>at := Fetched (fst (getTransactionAuthorAgreement env (call_pool c) w))\<rparr>,
            snd (getTransactionAuthorAgreement env (call_pool c) w))"
    by (simp add: resumeCall_def getTransactionAuthorAgreement_def)
  then show ?thesis by (intro exI [of _ "Suc 0"]) simp
next
  case None
  show ?thesis
  proof (cases "indySdk_buildGetTxnAuthorAgreementRequest env")
    case (Inl e)
    with assms None have "runAlone env (Suc 0) c w =
           (c\<lparr>at := Fetched (fst (getTransactionAuthorAgreement env (call_pool c) w))\<rparr>,
            snd (getTransactionAuthorAgreement env (call_pool c) w))"
      by (simp add: resumeCall_def getTransactionAuthorAgreement_def)
    then show ?thesis by (intro exI [of _ "Suc 0"]) simp
  next
    case r1: (Inr r1)
    obtain x1 w1 where s1: "submitReadRequest env (call_pool c) r1 w = (x1, w1)"
      by (cases "submitReadRequest env (call_pool c) r1 w")
    show ?thesis
    proof (cases x1)
      case (Inl e)
      with assms None r1 s1 have "runAlone env (Suc (Suc 0)) c w =
           (c\<lparr>at := Fetched (fst (getTransactionAuthorAgreement env (call_pool c) w))\<rparr>,
            snd (getTransactionAuthorAgreement env (call_pool c) w))"
        by (simp add: resumeCall_def getTransactionAuthorAgreement_def)
      then show ?thesis by (intro exI [of _ "Suc (Suc 0)"]) simp
    next
      case t1: (Inr t1)
      show ?thesis
      proof (cases "indySdk_buildGetAcceptanceMechanismsRequest env")
        case (Inl e)
        with assms None r1 s1 t1 have "runAlone env (Suc (Suc (Suc 0))) c w =
           (c\<lparr>at := Fetched (fst (getTransactionAuthorAgreement env (call_pool c) w))\<rparr>,
            snd (getTransactionAuthorAgreement env (call_pool c) w))"
          by (simp add: resumeCall_def getTransactionAuthorAgreement_def)
        then show ?thesis by (intro exI [of _ "Suc (Suc (Suc 0))"]) simp
      next
        case r2: (Inr r2)
        obtain x2 w2 where s2: "submitReadRequest env (call_pool c) r2 w1 = (x2, w2)"
          by (cases "submitReadRequest env (call_pool c) r2 w1")
        show ?thesis
        proof (cases x2)
          case (Inl e)
          with assms None r1 s1 t1 r2 s2 have "runAlone env (Suc (Suc (Suc (Suc 0)))) c w =
           (c\<lparr>at := Fetched (fst (getTransactionAuthorAgreement env (call_pool c) w))\<rparr>,
            snd (getTransactionAuthorAgreement env (call_pool c) w))"
            by (simp add: resumeCall_def getTransactionAuthorAgreement_def)
          then show ?thesis by (intro exI [of _ "Suc (Suc (Suc (Suc 0)))"]) simp
        next
          case t2: (Inr t2)
          with assms None r1 s1 t1 r2 s2 have "runAlone env (Suc (Suc (Suc (Suc (Suc 0))))) c w =
           (c\<lparr>at := Fetched (fst (getTransactionAuthorAgreement env (call_pool c) w))\<rparr>,
            snd (getTransactionAuthorAgreement env (call_pool c) w))"
            by (cases "data t1") (simp_all add: resumeCall_def getTransactionAuthorAgreement_def Let_def)
          then show ?thesis by (intro exI [of _ "Suc (Suc (Suc (Suc (Suc 0))))"]) simp
        qed
      qed
    qed
  qed
qed

lemma rest_steps:
  assumes "getTransactionAuthorAgreement env (call_pool c) w = (f, w1)"
  shows "runAlone env (Suc (Suc (Suc 0))) (c\<lparr>at := Fetched f\<rparr>) w1 =
           (c\<lparr>at := Settled (fst (submitWriteRequest env (call_agentContext c) (call_pool c)
                                     (call_request c) (call_signDid c) w))\<rparr>,
            snd (submitWriteRequest env (call_agentContext c) (call_pool c)
                   (call_request c) (call_signDid c) w))"
proof -
  let ?x = "appendTaa_resumed env (call_pool c) (call_request c) f w1"
  from assms have a: "appendTaa env (call_pool c) (call_request c) w = (?x, w1)"
    by (simp add: appendTaa_resumes)
  show ?thesis
  proof (cases ?x)
    case (Inl e)
    with a show ?thesis by (simp add: resumeCall_def submitWriteRequest_def)
  next
    case (Inr requestWithTaa)
    obtain s w2 where s: "signRequest env (call_agentContext c) (call_signDid c) requestWithTaa w1 = (s, w2)"
      by (cases "signRequest env (call_agentContext c) (call_signDid c) requestWithTaa w1")
    with a Inr show ?thesis
      by (cases s) (simp_all add: resumeCall_def submitWriteRequest_def split: sum.splits)
  qed
qed

lemma write_alone:
  "runAlone env 8 (newCall agentContext p request signDid) w =
     ((newCall agentContext p request signDid)
        \<lparr>at := Settled (fst (submitWriteRequest env agentContext p request signDid w))\<rparr>,
      snd (submitWriteRequest env agentContext p request signDid w))"
proof -
  let ?c = "newCall agentContext p request signDid"
  let ?g = "getTransactionAuthorAgreement env p w"
  have c: "at ?c = Check" "call_pool ?c = p" "call_agentContext ?c = agentContext"
    "call_request ?c = request" "call_signDid ?c = signDid"
    by (simp_all add: newCall_def)
  from fetch_steps [OF c(1), of env w] c(2) obtain k where k: "k \<le> 5"
    and f: "runAlone env k ?c w = (?c\<lparr>at := Fetched (fst ?g)\<rparr>, snd ?g)" by auto
  have g: "getTransactionAuthorAgreement env (call_pool ?c) w = (fst ?g, snd ?g)" using c(2) by simp
  from rest_steps [OF g, unfolded c]
  have r: "runAlone env 3 (?c\<lparr>at := Fetched (fst ?g)\<rparr>) (snd ?g) =
      (?c\<lparr>at := Settled (fst (submitWriteRequest env agentContext p request signDid w))\<rparr>,
       snd (submitWriteRequest env agentContext p request signDid w))"
    by (simp only: numeral_3_eq_3)
  from k have "8 = k + (3 + (5 - k))" by simp
  then have "runAlone env 8 ?c w = runAlone env (k + (3 + (5 - k))) ?c w" by simp
  also have "\<dots> = runAlone env (3 + (5 - k)) (?c\<lparr>at := Fetched (fst ?g)\<rparr>) (snd ?g)"
    by (simp add: runAlone_add [of env k] f)
  also have "\<dots> = runAlone env (5 - k)
      (?c\<lparr>at := Settled (fst (submitWriteRequest env agentContext p request signDid w))\<rparr>)
      (snd (submitWriteRequest env agentContext p request signDid w))"
    unfolding runAlone_add [of env 3 "5 - k"] r by (simp only: prod.case)
  also have "\<dots> = (?c\<lparr>at := Settled (fst (submitWriteRequest env agentContext p request signDid w))\<rparr>,
      snd (submitWriteRequest env agentContext p request signDid w))"
    by (rule runAlone_settled) simp
  finally show ?thesis .
qed

section \<open>Calls that overlap once the agreement is memoized\<close>




section \<open>Claims on the cache, the registry and the write coordinator\<close>

text \<open>
  Claim C9. A call of \<^verbatim>\<open>getPoolForDid\<close> on a cache hit leaves the whole state unchanged; a
  call that fails leaves the cache unchanged and calls no \<^verbatim>\<open>cache.set\<close>; a call that
  succeeds on the network path calls \<^verbatim>\<open>cache.set\<close> once, storing under the key of the DID the
  record it returns and the id of the pool it returns. No other method of the service
  writes to the cache.
\<close>

theorem cache_written_only_by_resolution:
  assumes run: "getPoolForDid env d w = (r, w')"
  shows "(cachedPool w (cache w (cacheKey d)) \<noteq> None \<longrightarrow> w' = w)
       \<and> (\<forall>e. r = Inl e \<longrightarrow> cache w' = cache w \<and> filter isCacheSet (newEvents w w') = [])
       \<and> (\<forall>v. r = Inr v \<and> cachedPool w (cache w (cacheKey d)) = None \<longrightarrow>
            cache w' = (cache w)(cacheKey d \<mapsto> \<lparr>nymResponse = did v, poolId = pool_id (heap w (pool v))\<rparr>) \<and>
            filter isCacheSet (newEvents w w') =
              [CacheSet (cacheKey d) \<lparr>nymResponse = did v, poolId = pool_id (heap w (pool v))\<rparr>])
       \<and> (\<forall>op. (\<forall>x. op \<noteq> GetPoolForDid x) \<longrightarrow>
            cache (perform env op w) = cache w \<and>
            filter isCacheSet (newEvents w (perform env op w)) = [])"
  using getPoolForDid_cache_effects [OF run] perform_cache [of _ env w]
  by simp

theorem cache_written_only_by_resolution_witness:
  "filter isCacheSet (newEvents stagingFirstWorld (snd (getPoolForDid fullKeyEnv ''did1'' stagingFirstWorld))) =
     [CacheSet (cacheKey ''did1'') \<lparr>nymResponse = exampleNym, poolId = ''B''\<rparr>]
   \<and> cache (snd (getPoolForDid exampleEnv ''did1'' stagingWorld)) = cache stagingWorld
   \<and> snd (getPoolForDid exampleEnv ''did1'' cachedWorld) = cachedWorld"
  using cache_written_only_by_resolution [where env = fullKeyEnv and d = "''did1''" and w = stagingFirstWorld
      and r = "fst (getPoolForDid fullKeyEnv ''did1'' stagingFirstWorld)"
      and w' = "snd (getPoolForDid fullKeyEnv ''did1'' stagingFirstWorld)"]
    cache_written_only_by_resolution [where env = exampleEnv and d = "''did1''" and w = stagingWorld
      and r = "fst (getPoolForDid exampleEnv ''did1'' stagingWorld)"
      and w' = "snd (getPoolForDid exampleEnv ''did1'' stagingWorld)"]
    cache_written_only_by_resolution [where env = exampleEnv and d = "''did1''" and w = cachedWorld
      and r = "fst (getPoolForDid exampleEnv ''did1'' cachedWorld)"
      and w' = "snd (getPoolForDid exampleEnv ''did1'' cachedWorld)"]
  by (simp add: didResponses_def getDidFromPool_def getDidFromPool_catch_def cachedPool_def cacheKey_def emit_def
      pool_id_def isIndyError_def rethrow_def isNotFound_def getPoolForDid_def getPoolForDid_fromPools_def
      getSettledDidResponsesFromPools_def Let_def examplePool_def exampleEnv_def
      newEvents_def fullKeyEnv_def cachedWorld_def stagingFirstWorld_def stagingWorld_def exampleNym_def)

text \<open>
  The guard \<^verbatim>\<open>!indyNamespace\<close> (l.159) takes both \<^verbatim>\<open>undefined\<close> and the empty string as
  no namespace given: either way the first configured pool is returned, or the error of
  an empty registry.
\<close>

lemma namespace_not_given:
  "getPoolForNamespace (Some []) w = getPoolForNamespace None w
   \<and> getPoolForNamespace None w =
       (case pools w of
          [] \<Rightarrow> Inl (IndySdkPoolNotConfiguredError NoIndyLedgersConfigured)
        | p0 # _ \<Rightarrow> Inr p0)"
  by (simp add: getPoolForNamespace_def split: list.splits)

text \<open>
  Claim C10. A namespace is given when the guard \<^verbatim>\<open>!indyNamespace\<close> does not hold, that is
  when it is a string that is not empty. For every given namespace that a configured pool
  matches, the lookup returns the first matching pool in configured order, however many
  later pools match; the registry is not empty since a pool matches.
\<close>

theorem namespace_first_match:
  assumes "ns \<noteq> []"
    and "i < length (pools w)"
    and "didIndyNamespace (heap w (pools w ! i)) = Some ns"
    and "\<forall>j<i. didIndyNamespace (heap w (pools w ! j)) \<noteq> Some ns"
  shows "getPoolForNamespace (Some ns) w = Inr (pools w ! i)"
proof -
  from assms(2) obtain p0 ps where ne: "pools w = p0 # ps" by (cases "pools w") auto
  from assms(2-4) have "find (\<lambda>p. didIndyNamespace (heap w p) = Some ns) (pools w) = Some (pools w ! i)"
    by (rule find_first_index)
  with assms(1) ne show ?thesis by (simp add: getPoolForNamespace_def)
qed

theorem namespace_first_match_witness: "getPoolForNamespace (Some ''bcovrin'') namespaceWorld = Inr 1"
  using namespace_first_match [where w = namespaceWorld and ns = "''bcovrin''" and i = 1]
  by (simp add: getPoolForNamespace_def didIndyNamespace_def examplePool_def namespaceWorld_def)

text \<open>
  Claim C5, as the source has it. The first pool refuses the connection; the call fails
  with that error and the second pool, which would have connected, is never tried.
\<close>

theorem connect_failure_counterexample:
  "pools stagingWorld = [0, 1]
   \<and> connectToPools refusingEnv stagingWorld =
       (Inl (OtherError ''connection refused''), emit (Connect 0) stagingWorld)
   \<and> Connect 1 \<notin> set (trace (snd (connectToPools refusingEnv stagingWorld)))
   \<and> pool_connect refusingEnv (trace (emit (Connect 0) stagingWorld)) 1 = Inr 1"
  by (simp add: connectToPools_def emit_def exampleEnv_def refusingEnv_def stagingWorld_def examplePool_def)

text \<open>
  Claim C5, amended. \<^verbatim>\<open>connectToPools\<close> connects to the pools in registry order, one at a
  time, and stops at the first failure: the pools it has tried are a prefix of the
  registry, every one of them but the last has connected, a failure of the last one is the
  error of the call, and when the call succeeds every pool has been tried and the handles
  are returned in registry order.
\<close>

theorem connect_stops_at_first_failure:
  assumes "connectToPools env w = (r, w')"
  shows "\<exists>k\<le>length (pools w).
     newEvents w w' = map Connect (take k (pools w)) \<and>
     (\<forall>i<k - 1. \<exists>h. pool_connect env (trace w @ map Connect (take i (pools w))) (pools w ! i) = Inr h) \<and>
     (case r of
        Inl e \<Rightarrow> 0 < k \<and>
          pool_connect env (trace w @ map Connect (take (k - 1) (pools w))) (pools w ! (k - 1)) = Inl e
      | Inr hs \<Rightarrow> k = length (pools w) \<and> length hs = length (pools w) \<and>
          (\<forall>i<length (pools w).
             pool_connect env (trace w @ map Connect (take i (pools w))) (pools w ! i) = Inr (hs ! i)))"
proof -
  from assms have "connectLoop env (pools w) [] w = (r, w')" by (simp add: connectToPools_def)
  from connectLoop_attempts [OF this] obtain k where k: "k \<le> length (pools w)"
    and tr: "trace w' = trace w @ map Connect (take k (pools w))"
    and ok: "\<forall>i<k - 1. \<exists>h. pool_connect env (trace w @ map Connect (take i (pools w))) (pools w ! i) = Inr h"
    and res: "(case r of
        Inl e \<Rightarrow> 0 < k \<and> pool_connect env (trace w @ map Connect (take (k - 1) (pools w))) (pools w ! (k - 1)) = Inl e
      | Inr hs' \<Rightarrow> k = length (pools w) \<and> length hs' = length ([]::nat list) + length (pools w) \<and> take (length ([]::nat list)) hs' = [] \<and>
          (\<forall>i<length (pools w). pool_connect env (trace w @ map Connect (take i (pools w))) (pools w ! i) = Inr (hs' ! (length ([]::nat list) + i))))"
    by blast
  from res have "(case r of
        Inl e \<Rightarrow> 0 < k \<and>
          pool_connect env (trace w @ map Connect (take (k - 1) (pools w))) (pools w ! (k - 1)) = Inl e
      | Inr hs \<Rightarrow> k = length (pools w) \<and> length hs = length (pools w) \<and>
          (\<forall>i<length (pools w).
             pool_connect env (trace w @ map Connect (take i (pools w))) (pools w ! i) = Inr (hs ! i)))"
    by (cases r) simp_all
  with k newEvents_append [OF tr] ok show ?thesis by blast
qed

theorem connect_stops_at_first_failure_witness:
  "connectToPools exampleEnv stagingWorld = (Inr [0, 1], emit (Connect 1) (emit (Connect 0) stagingWorld))
   \<and> newEvents stagingWorld (snd (connectToPools refusingEnv stagingWorld)) = [Connect 0]
   \<and> fst (connectToPools refusingEnv stagingWorld) = Inl (OtherError ''connection refused'')"
  using connect_stops_at_first_failure [where env = exampleEnv and w = stagingWorld
      and r = "Inr [0, 1]" and w' = "emit (Connect 1) (emit (Connect 0) stagingWorld)"]
    connect_stops_at_first_failure [where env = refusingEnv and w = stagingWorld
      and r = "Inl (OtherError ''connection refused'')" and w' = "emit (Connect 0) stagingWorld"]
  by (simp add: connectToPools_def emit_def newEvents_def exampleEnv_def refusingEnv_def stagingWorld_def
      examplePool_def)

text \<open>
  A mismatch on the test the source makes: with a fetched agreement and a
  configured acceptance, a version that differs from the agreement's, or a mechanism that
  the operator \<^verbatim>\<open>in\<close> does not find, fails the call with the error that reports the
  configured mechanism and version and the pool's mechanisms and version; the state is the
  one after the fetch of the agreement, so nothing was signed or submitted.
\<close>

lemma agreement_mismatch_rejected:
  assumes g: "getTransactionAuthorAgreement env p w = (Inr (Some a), w1)"
    and t: "transactionAuthorAgreement (config (heap w p)) = Some t"
    and am: "acceptanceMechanisms a = Some am"
    and bad: "agreement_version a \<noteq> version t \<or> \<not> js_in (acceptanceMechanism t) (aml am)"
  shows "submitWriteRequest env agentContext p request signDid w =
     (Inl (IndySdkPoolError
             (UnableToSatisfyTaa (acceptanceMechanism t) (version t) (map fst (aml am)) (agreement_version a))
             None), w1)"
proof -
  from getTAA_frame [OF g] t have "transactionAuthorAgreement (config (heap w1 p)) = Some t" by simp
  with g am bad have "appendTaa env p request w =
     (Inl (IndySdkPoolError
             (UnableToSatisfyTaa (acceptanceMechanism t) (version t) (map fst (aml am)) (agreement_version a))
             None), w1)"
    by (auto simp add: appendTaa_def Let_def)
  then show ?thesis by (simp add: submitWriteRequest_def)
qed

text \<open>
  Claim C6 at a mechanism name that every object inherits. The pool accepts the mechanism
  \<^verbatim>\<open>wallet_agreement\<close> only and the caller has configured \<^verbatim>\<open>toString\<close> with the right
  version. The test \<^verbatim>\<open>taa.acceptanceMechanism in authorAgreement.acceptanceMechanisms.aml\<close>
  holds, no error is thrown, the acceptance is appended, and the request is signed and
  submitted.
\<close>

theorem inherited_mechanism_accepted:
  "\<not> List.member (map fst [(''wallet_agreement'', ''accepted in the wallet'')]) ''toString''
   \<and> submitWriteRequest exampleEnv (AgentContext ''agent'') 0 (LedgerRequest ''nym'') ''signer''
       (agreementWorld ''1.0'' ''toString'') =
     (Inr (LedgerWriteReplyResponse ''ok''),
      emit (WriteRequest 0 (LedgerRequest ''signed:accepted:toString''))
        (emit (SignRequest ''signer'' (LedgerRequest ''accepted:toString''))
           (agreementWorld ''1.0'' ''toString'')))"
  by (simp add: submitWriteRequest_def appendTaa_def getTransactionAuthorAgreement_def signRequest_def
      submitReadRequest_def setAuthorAgreement_def js_in_def objectPrototypeProperties_def rethrow_def
      isIndyError_def emit_def Let_def exampleEnv_def agreementWorld_def exampleAgreement_def)





text \<open>
  Claim C8. When the agreement of the pool is absent, \<^verbatim>\<open>appendTaa\<close> returns the caller's
  request as it is. After the fetch of the agreement the call does nothing but sign that
  request, when the wallet assertion passes, and submit the signed request to the pool,
  when signing succeeds; its result is the reply of the pool or the rethrown error.
\<close>

theorem no_agreement_request_unmodified:
  assumes g: "getTransactionAuthorAgreement env p w = (Inr None, w1)"
  shows "appendTaa env p request w = (Inr request, w1)
       \<and> newEvents w1 (snd (submitWriteRequest env agentContext p request signDid w)) =
           (case assertIndySdkWallet env agentContext of
              Inl e \<Rightarrow> []
            | Inr h \<Rightarrow>
                SignRequest signDid request #
                  (case indySdk_signRequest env (trace w1) h signDid request of
                     Inl e \<Rightarrow> []
                   | Inr signed \<Rightarrow> [WriteRequest p signed]))
       \<and> fst (submitWriteRequest env agentContext p request signDid w) =
           (case assertIndySdkWallet env agentContext of
              Inl e \<Rightarrow> Inl (rethrow e)
            | Inr h \<Rightarrow>
                (case indySdk_signRequest env (trace w1) h signDid request of
                   Inl e \<Rightarrow> Inl (rethrow e)
                 | Inr signed \<Rightarrow>
                     (case pool_submitWriteRequest env (trace w1 @ [SignRequest signDid request]) p signed of
                        Inl e \<Rightarrow> Inl (rethrow e)
                      | Inr resp \<Rightarrow> Inr resp)))"
proof -
  from g have a: "appendTaa env p request w = (Inr request, w1)"
    by (simp add: appendTaa_def)
  have t: "trace (snd (submitWriteRequest env agentContext p request signDid w)) = trace w1 @
           (case assertIndySdkWallet env agentContext of
              Inl e \<Rightarrow> []
            | Inr h \<Rightarrow>
                SignRequest signDid request #
                  (case indySdk_signRequest env (trace w1) h signDid request of
                     Inl e \<Rightarrow> []
                   | Inr signed \<Rightarrow> [WriteRequest p signed]))"
    by (simp add: submitWriteRequest_def a signRequest_def split: sum.splits)
  have r: "fst (submitWriteRequest env agentContext p request signDid w) =
           (case assertIndySdkWallet env agentContext of
              Inl e \<Rightarrow> Inl (rethrow e)
            | Inr h \<Rightarrow>
                (case indySdk_signRequest env (trace w1) h signDid request of
                   Inl e \<Rightarrow> Inl (rethrow e)
                 | Inr signed \<Rightarrow>
                     (case pool_submitWriteRequest env (trace w1 @ [SignRequest signDid request]) p signed of
                        Inl e \<Rightarrow> Inl (rethrow e)
                      | Inr resp \<Rightarrow> Inr resp)))"
    by (simp add: submitWriteRequest_def a signRequest_def split: sum.splits)
  from a newEvents_append [OF t] r show ?thesis by simp
qed

theorem no_agreement_request_unmodified_witness:
  "newEvents absentWorld
     (snd (submitWriteRequest exampleEnv (AgentContext ''agent'') 0 (LedgerRequest ''nym'') ''signer'' absentWorld)) =
   [SignRequest ''signer'' (LedgerRequest ''nym''), WriteRequest 0 (LedgerRequest ''signed:nym'')]
   \<and> trace (snd (submitWriteRequest fullKeyEnv (AgentContext ''agent'') 0 (LedgerRequest ''nym'') ''signer'' stagingWorld)) =
   [ReadRequest 0 (LedgerRequest ''taa''), ReadRequest 0 (LedgerRequest ''aml''),
    SignRequest ''signer'' (LedgerRequest ''nym''), WriteRequest 0 (LedgerRequest ''signed:nym'')]"
  using no_agreement_request_unmodified [where env = exampleEnv and p = 0 and w = absentWorld
      and ?w1.0 = absentWorld and request = "LedgerRequest ''nym''" and signDid = "''signer''"
      and agentContext = "AgentContext ''agent''"]
    no_agreement_request_unmodified [where env = fullKeyEnv and p = 0 and w = stagingWorld
      and ?w1.0 = "setAuthorAgreement 0 None
                     (emit (ReadRequest 0 (LedgerRequest ''aml'')) (emit (ReadRequest 0 (LedgerRequest ''taa'')) stagingWorld))"
      and request = "LedgerRequest ''nym''" and signDid = "''signer''"
      and agentContext = "AgentContext ''agent''"]
  by (simp add: submitWriteRequest_def appendTaa_def getTransactionAuthorAgreement_def signRequest_def
      submitReadRequest_def setAuthorAgreement_def js_in_def objectPrototypeProperties_def rethrow_def
      isIndyError_def emit_def Let_def exampleEnv_def
      newEvents_def fullKeyEnv_def stagingWorld_def absentWorld_def examplePool_def)

end
